theory Spec2Isabelle
  imports Main "HOL-Library.Sublist" "HOL-Library.Multiset"
begin

section \<open>JavaScript string primitives\<close>

text \<open>
  Source strings are modelled as \<^typ>\<open>string\<close>, one \<^typ>\<open>char\<close> per code unit; the
  managed characters, the newline and every character the heuristics look for are ASCII.
  Each primitive below follows the ECMAScript method of the same name on the arguments the
  program passes to it.
\<close>

text \<open>\<^verbatim>\<open>str.includes(sub)\<close>\<close>

fun str_includes :: "string \<Rightarrow> string \<Rightarrow> bool" where
  "str_includes [] sub = (sub = [])"
| "str_includes (c # s) sub = (prefix sub (c # s) \<or> str_includes s sub)"

text \<open>\<^verbatim>\<open>str.startsWith(p)\<close> and \<^verbatim>\<open>str.endsWith(p)\<close>\<close>

definition startsWith :: "string \<Rightarrow> string \<Rightarrow> bool" where
  "startsWith str p = prefix p str"

definition endsWith :: "string \<Rightarrow> string \<Rightarrow> bool" where
  "endsWith str p = suffix p str"

text \<open>\<^verbatim>\<open>str.indexOf(sub, from)\<close>, \<open>None\<close> for the result \<open>-1\<close>.\<close>

fun indexOf_aux :: "string \<Rightarrow> string \<Rightarrow> nat \<Rightarrow> nat option" where
  "indexOf_aux [] sub i = (if sub = [] then Some i else None)"
| "indexOf_aux (c # s) sub i =
     (if prefix sub (c # s) then Some i else indexOf_aux s sub (Suc i))"

definition indexOf :: "string \<Rightarrow> string \<Rightarrow> nat \<Rightarrow> nat option" where
  "indexOf str sub from = indexOf_aux (drop from str) sub (min from (length str))"

text \<open>\<^verbatim>\<open>str.lastIndexOf(sub, from)\<close> for a one-character \<open>sub\<close>: the greatest index
  \<open>\<le> from\<close> holding that character.\<close>

fun lastIndexOf_aux :: "string \<Rightarrow> char \<Rightarrow> nat \<Rightarrow> nat option" where
  "lastIndexOf_aux str c 0 = (if str \<noteq> [] \<and> str ! 0 = c then Some 0 else None)"
| "lastIndexOf_aux str c (Suc i) =
     (if Suc i < length str \<and> str ! Suc i = c then Some (Suc i) else lastIndexOf_aux str c i)"

definition lastIndexOf :: "string \<Rightarrow> char \<Rightarrow> nat \<Rightarrow> nat option" where
  "lastIndexOf str c from = lastIndexOf_aux str c from"

text \<open>\<^verbatim>\<open>str.substring(a, b)\<close> on non-negative arguments: both are clamped to the length
  and swapped when \<open>a > b\<close>. \<^verbatim>\<open>str.substring(a)\<close> runs to the end.\<close>

definition substring :: "string \<Rightarrow> nat \<Rightarrow> nat \<Rightarrow> string" where
  "substring str a b =
     (let a' = min a (length str); b' = min b (length str);
          lo = min a' b'; hi = max a' b'
      in take (hi - lo) (drop lo str))"

definition substring_from :: "string \<Rightarrow> nat \<Rightarrow> string" where
  "substring_from str a = drop a str"

text \<open>\<^verbatim>\<open>str.substr(start, len)\<close> on a non-negative start.\<close>

definition substr :: "string \<Rightarrow> nat \<Rightarrow> nat \<Rightarrow> string" where
  "substr str start len = take len (drop start str)"

text \<open>\<^verbatim>\<open>str.split('\n')\<close> and \<^verbatim>\<open>lines.join('\n')\<close>\<close>

definition newline :: char where
  "newline = CHR 0x0A"

fun split_lines :: "string \<Rightarrow> string list" where
  "split_lines [] = [[]]"
| "split_lines (c # s) =
     (let r = split_lines s
      in if c = newline then [] # r else (c # hd r) # tl r)"

fun join_lines :: "string list \<Rightarrow> string" where
  "join_lines [] = []"
| "join_lines [l] = l"
| "join_lines (l # m # ls) = l @ newline # join_lines (m # ls)"

text \<open>\<^verbatim>\<open>str.trim()\<close>: the white space and line terminators below \<open>0x100\<close>.\<close>

definition is_space :: "char \<Rightarrow> bool" where
  "is_space c = (c \<in> set [CHR 0x09, CHR 0x0A, CHR 0x0B, CHR 0x0C, CHR 0x0D, CHR 0x20, CHR 0xA0])"

definition trim :: "string \<Rightarrow> string" where
  "trim str = rev (dropWhile is_space (rev (dropWhile is_space str)))"

text \<open>\<^verbatim>\<open>(str.match(/c/g) || []).length\<close> for a pattern of one character.\<close>

definition count_char :: "char \<Rightarrow> string \<Rightarrow> nat" where
  "count_char c str = length (filter (\<lambda>d. d = c) str)"

section \<open>The escape table\<close>

text \<open>\<^verbatim>\<open>ESCAPES[c]\<close>; a key outside the table reads \<^verbatim>\<open>undefined\<close>, which
  \<^verbatim>\<open>String.prototype.replace\<close> inserts as the text \<^verbatim>\<open>undefined\<close>.\<close>

definition ESCAPES :: "char \<Rightarrow> string" where
  \<open>ESCAPES c =
     (if c = CHR ''"'' then ''&quot;''
      else if c = CHR 0x27 then ''&apos;''
      else if c = CHR ''&'' then ''&amp;''
      else if c = CHR ''<'' then ''&lt;''
      else if c = CHR ''>'' then ''&gt;''
      else ''undefined'')\<close>

section \<open>Escape Policy Engine\<close>

text \<open>The process-wide flag \<^verbatim>\<open>strictMode\<close> is passed as the first argument.\<close>

definition shouldExcludeFromEscaping :: "bool \<Rightarrow> string \<Rightarrow> bool" where
  "shouldExcludeFromEscaping strictMode str =
     (if strictMode then False
      else if str_includes str ''?'' \<and> str_includes str ''&'' \<and> \<not> str_includes str '' '' then True
      else if startsWith str ''&'' \<and> str_includes str ''='' \<and> \<not> str_includes str '' '' then True
      else if startsWith str ''&'' \<and> str_includes str '':'' then True
      else if str = ''&'' \<or> str = ''>>'' \<or> str = ''&&'' then True
      else False)"

text \<open>\<^verbatim>\<open>/&(quot|apos|amp|lt|gt);/\<close>\<close>

definition entityRegex :: "string \<Rightarrow> bool" where
  "entityRegex str =
     list_ex (\<lambda>n. str_includes str (''&'' @ n @ '';'')) [''quot'', ''apos'', ''amp'', ''lt'', ''gt'']"

text \<open>\<^verbatim>\<open>/&amp;(quot|apos|lt|gt);/\<close>\<close>

definition doubleEscapedRegex :: "string \<Rightarrow> bool" where
  "doubleEscapedRegex str =
     list_ex (\<lambda>n. str_includes str (''&amp;'' @ n @ '';'')) [''quot'', ''apos'', ''lt'', ''gt'']"

text \<open>\<^verbatim>\<open>/&#(\d+);/\<close>: the digits are matched greedily and the next character must be
  the semicolon, which is not a digit, so backtracking never helps.\<close>

definition is_digit :: "char \<Rightarrow> bool" where
  "is_digit c = (c \<in> set ''0123456789'')"

definition numericEntityAt :: "string \<Rightarrow> bool" where
  "numericEntityAt s =
     (prefix ''&#'' s \<and>
      (let rest = drop 2 s; ds = takeWhile is_digit rest; after = dropWhile is_digit rest
       in ds \<noteq> [] \<and> prefix '';'' after))"

fun numericEntityRegex :: "string \<Rightarrow> bool" where
  "numericEntityRegex [] = False"
| "numericEntityRegex (c # s) = (numericEntityAt (c # s) \<or> numericEntityRegex s)"

definition containsHtmlEntities :: "string \<Rightarrow> bool" where
  "containsHtmlEntities str =
     (entityRegex str \<or> doubleEscapedRegex str \<or> numericEntityRegex str)"

text \<open>
  \<^verbatim>\<open>str.replace(/[...]/g, c => { charactersToEscape.push(c); return ESCAPES[c]; })\<close>:
  the characters of the class are visited from left to right; the pair is the new text and
  the characters pushed, in order.
\<close>

fun replace_collect :: "(char \<Rightarrow> bool) \<Rightarrow> string \<Rightarrow> string \<times> char list" where
  "replace_collect P [] = ([], [])"
| "replace_collect P (c # s) =
     (let r = replace_collect P s
      in if P c then (ESCAPES c @ fst r, c # snd r) else (c # fst r, snd r))"

text \<open>\<^verbatim>\<open>[...new Set(xs)]\<close>: the distinct elements in the order of first insertion.\<close>

definition new_Set :: "'a list \<Rightarrow> 'a list" where
  "new_Set xs = foldl (\<lambda>acc x. if x \<in> set acc then acc else acc @ [x]) [] xs"

text \<open>The character classes \<^verbatim>\<open>/[\"']/\<close> and \<^verbatim>\<open>/[\"'&<>]/\<close>.\<close>

definition quote_class :: "char \<Rightarrow> bool" where
  \<open>quote_class c = (c = CHR ''"'' \<or> c = CHR 0x27)\<close>

definition managed_class :: "char \<Rightarrow> bool" where
  \<open>managed_class c =
     (c = CHR ''"'' \<or> c = CHR 0x27 \<or> c = CHR ''&'' \<or> c = CHR ''<'' \<or> c = CHR ''>'')\<close>

text \<open>\<^verbatim>\<open>escapeString\<close> returns either its argument itself (no escaping needed) or an
  object \<^verbatim>\<open>{ result, escapedChars }\<close>.\<close>

datatype escape_result =
    Unchanged string
  | Escaped (result: string) "char list"

definition escapeString :: "bool \<Rightarrow> string \<Rightarrow> escape_result" where
  "escapeString strictMode str =
     (if shouldExcludeFromEscaping strictMode str then Unchanged str
      else if containsHtmlEntities str then Unchanged str
      else if str_includes str ''<'' \<or> str_includes str ''>'' then
        (let r = replace_collect quote_class str in Escaped (fst r) (new_Set (snd r)))
      else
        (let r = replace_collect managed_class str in Escaped (fst r) (new_Set (snd r))))"

text \<open>\<^verbatim>\<open>/^[A-Za-z-]+$/\<close>\<close>

definition is_font_word_char :: "char \<Rightarrow> bool" where
  "is_font_word_char c =
     (c \<in> set ''ABCDEFGHIJKLMNOPQRSTUVWXYZ'' \<or> c \<in> set ''abcdefghijklmnopqrstuvwxyz'' \<or>
      c = CHR ''-'')"

definition font_word :: "string \<Rightarrow> bool" where
  "font_word str = (str \<noteq> [] \<and> list_all is_font_word_char str)"

text \<open>\<^verbatim>\<open>isAutoSkipPattern\<close> returns \<^verbatim>\<open>false\<close> (\<open>None\<close>) or \<^verbatim>\<open>{ reason }\<close>. Its
  last rule splits the file path, not the file content, into lines; \<^verbatim>\<open>xs[line - 1] || ''\<close>
  is the empty text when the index is out of range.\<close>

definition line_or_empty :: "string list \<Rightarrow> nat \<Rightarrow> string" where
  "line_or_empty ls line = (if 1 \<le> line \<and> line \<le> length ls then ls ! (line - 1) else [])"

definition isAutoSkipPattern :: "bool \<Rightarrow> string \<Rightarrow> string \<Rightarrow> nat \<Rightarrow> nat \<Rightarrow> string option" where
  "isAutoSkipPattern strictMode str filePath line column =
     (if strictMode then None
      else if startsWith str ''&'' \<and>
              (str_includes str '' '' \<or> str_includes str ''['' \<or> str_includes str '':'')
        then Some ''CSS selector pattern''
      else if endsWith filePath ''.css'' \<or> endsWith filePath ''.scss'' \<or>
              endsWith filePath ''.less'' \<or> endsWith filePath ''.styl''
        then Some ''CSS file content''
      else if (startsWith str ''&'' \<or> str_includes str '' &'') \<and>
              (str_includes filePath ''style'' \<or> str_includes filePath ''Style'' \<or>
               str_includes filePath ''.css'' \<or> str_includes filePath ''.scss'')
        then Some ''Likely CSS-in-JS pattern''
      else if (str_includes str ''system'' \<or> str_includes str ''serif'' \<or>
               str_includes str ''sans-serif'' \<or> str_includes str ''monospace'' \<or>
               str_includes str ''Roboto'' \<or> str_includes str ''Arial'' \<or>
               str_includes str ''Helvetica'' \<or> str_includes str ''font'' \<or>
               str_includes str ''Font'') \<and>
              (str_includes str '','' \<or> font_word str)
        then Some ''Font family declaration''
      else if str_includes str ''&'' \<and>
              (str_includes str ''query'' \<or> str_includes str ''filter'' \<or>
               str_includes str ''param'')
        then Some ''Query parameter pattern''
      else if startsWith str ''&.'' \<or> startsWith str ''&#'' \<or> startsWith str ''&['' \<or>
              startsWith str ''&:'' \<or> startsWith str ''&>'' \<or> str_includes str '' & ''
        then Some ''CSS selector pattern (enhanced detection)''
      else
        (let lineContext = line_or_empty (split_lines filePath) line
         in if (str_includes lineContext ''style'' \<or> str_includes lineContext ''Style'' \<or>
                str_includes lineContext ''className'' \<or> str_includes lineContext ''css'') \<and>
               (str_includes lineContext '':'' \<or> str_includes lineContext ''='') \<and>
               (str_includes str ''-'' \<or> str_includes str '' '' \<or> str_includes str '','')
            then Some ''CSS property value''
            else None))"

section \<open>Idempotency Detector\<close>

text \<open>\<^verbatim>\<open>str.replace(/pat/g, rep)\<close> and \<^verbatim>\<open>(str.match(/pat/g) || []).length\<close> for a pattern of
  literal characters (non-empty): matches are taken from left to right and do not overlap.\<close>

function replaceAll :: "string \<Rightarrow> string \<Rightarrow> string \<Rightarrow> string" where
  "replaceAll pat rep [] = []"
| "replaceAll pat rep (c # s) =
     (if pat \<noteq> [] \<and> prefix pat (c # s)
      then rep @ replaceAll pat rep (drop (length pat) (c # s))
      else c # replaceAll pat rep s)"
  by pat_completeness auto
termination
  by (relation "measure (\<lambda>(pat, rep, s). length s)") (auto simp: neq_Nil_conv)

function count_matches :: "string \<Rightarrow> string \<Rightarrow> nat" where
  "count_matches pat [] = 0"
| "count_matches pat (c # s) =
     (if pat \<noteq> [] \<and> prefix pat (c # s)
      then Suc (count_matches pat (drop (length pat) (c # s)))
      else count_matches pat s)"
  by pat_completeness auto
termination
  by (relation "measure (\<lambda>(pat, s). length s)") (auto simp: neq_Nil_conv)

text \<open>\<^verbatim>\<open>str.toLowerCase()\<close> on code units below \<open>0x100\<close>: the ASCII capitals and the
  Latin-1 capitals (\<open>0xC0\<close> to \<open>0xDE\<close> without the multiplication sign \<open>0xD7\<close>) move up by
  \<open>0x20\<close>.\<close>

definition toLowerCase_char :: "char \<Rightarrow> char" where
  "toLowerCase_char c =
     (let n = (of_char c :: nat)
      in if (65 \<le> n \<and> n \<le> 90) \<or> (192 \<le> n \<and> n \<le> 222 \<and> n \<noteq> 215)
         then char_of (n + 32) else c)"

definition toLowerCase :: "string \<Rightarrow> string" where
  "toLowerCase str = map toLowerCase_char str"

text \<open>\<^verbatim>\<open>lines.slice(a, b)\<close> on non-negative bounds.\<close>

definition slice :: "'a list \<Rightarrow> nat \<Rightarrow> nat \<Rightarrow> 'a list" where
  "slice xs a b = take (b - a) (drop a xs)"

definition apostrophe :: char where
  "apostrophe = CHR 0x27"

definition dquote :: char where
  "dquote = CHR 0x22"

datatype confidence = High | Medium

text \<open>The values \<^verbatim>\<open>isAlreadyEscapedInLineWindow\<close> returns: the boolean \<^verbatim>\<open>false\<close>,
  \<^verbatim>\<open>{ matched: false }\<close>, \<^verbatim>\<open>{ matched: false, error }\<close> and
  \<^verbatim>\<open>{ matched: true, confidence, reason }\<close>. The callers read the property \<^verbatim>\<open>matched\<close>,
  which is \<^verbatim>\<open>undefined\<close>, hence falsy, on the boolean.\<close>

datatype window_check =
    ReturnedFalse
  | NotMatched
  | NotMatchedError
  | Matched confidence string

fun matched :: "window_check \<Rightarrow> bool" where
  "matched (Matched _ _) = True"
| "matched _ = False"

text \<open>The file is read inside the function; \<open>None\<close> stands for a read that throws.\<close>

definition isAlreadyEscapedInLineWindow ::
  "string option \<Rightarrow> nat \<Rightarrow> string \<Rightarrow> window_check" where
  "isAlreadyEscapedInLineWindow file lineNumber originalString =
     (if \<not> str_includes originalString [apostrophe] \<and> \<not> str_includes originalString [dquote]
      then ReturnedFalse
      else case file of
        None \<Rightarrow> NotMatchedError
      | Some fileContent \<Rightarrow>
         (let lines = split_lines fileContent;
              escapedString = replaceAll [dquote] ''&quot;''
                                (replaceAll [apostrophe] ''&apos;'' originalString);
              windowStart = lineNumber - 10 - 1;
              windowEnd = min (length lines - 1) (lineNumber + 10 - 1);
              window = slice lines windowStart (windowEnd + 1);
              windowText = join_lines window
          in if list_ex (\<lambda>line. str_includes line escapedString) window
             then Matched High ''exact_match''
             else if str_includes originalString [apostrophe] \<and>
                     str_includes originalString [newline] \<and>
                     count_matches ''&apos;'' windowText \<ge> count_char apostrophe originalString \<and>
                     (let strippedOriginal = toLowerCase (replaceAll [apostrophe] [] originalString);
                          strippedWindow = toLowerCase (replaceAll ''&apos;'' [] windowText)
                      in str_includes strippedWindow (substring strippedOriginal 0 20) \<and>
                         str_includes strippedWindow
                           (substring_from strippedOriginal (length strippedOriginal - 20)))
             then Matched Medium ''content_similarity''
             else if str_includes originalString [apostrophe] \<and>
                     list_all (\<lambda>idx.
                        str_includes windowText
                          (substring originalString (idx - 10) idx @ ''&apos;'' @
                           substring originalString (idx + 1) (min (length originalString) (idx + 11))))
                       (filter (\<lambda>i. originalString ! i = apostrophe) [0..<length originalString])
             then Matched Medium ''context_pattern''
             else NotMatched))"

section \<open>Candidates and Rejection Memory\<close>

text \<open>An entry of \<^verbatim>\<open>stringFixes\<close>: a fix (\<^verbatim>\<open>type: 'fix'\<close>) or, in strict mode, a note
  (\<^verbatim>\<open>type: 'information'\<close>). \<open>start_line\<close> and \<open>start_column\<close> are \<^verbatim>\<open>loc.start.line\<close>
  (counted from 1) and \<^verbatim>\<open>loc.start.column\<close> (counted from 0).\<close>

datatype fix_type = FixEntry | Information

record string_fix =
  entry_type :: fix_type
  message :: string
  original :: string
  escaped :: string
  escapedChars :: "char list"
  start_line :: nat
  start_column :: nat
  isJsx :: bool
  rawValue :: string

text \<open>Decimal digits of a number inside a template literal.\<close>

definition digit_char :: "nat \<Rightarrow> char" where
  "digit_char d = ''0123456789'' ! d"

function string_of_nat :: "nat \<Rightarrow> string" where
  "string_of_nat n =
     (if n < 10 then [digit_char n] else string_of_nat (n div 10) @ [digit_char (n mod 10)])"
  by pat_completeness auto
termination
  by (relation "measure id") auto

definition createFixKey :: "string \<Rightarrow> nat \<Rightarrow> nat \<Rightarrow> string \<Rightarrow> string" where
  "createFixKey filePath line column orig =
     filePath @ '':'' @ string_of_nat line @ '':'' @ string_of_nat column @ '':'' @ orig"

record rejected_fix =
  rj_filePath :: string
  rj_line :: nat
  rj_column :: nat
  rj_original :: string
  rj_autoSkipped :: bool
  rj_reason :: "string option"
  rj_timestamp :: string

type_synonym rejection_memory = "string \<rightharpoonup> rejected_fix"

text \<open>The backing file \<^verbatim>\<open>.literal-hell-wards\<close>: absent, unparsable, or the JSON of a map.\<close>

datatype wards_file = Absent | Corrupt | Stored rejection_memory

text \<open>\<^verbatim>\<open>loadRejectedFixes\<close> keeps the current map when the file is absent and starts empty
  when it cannot be parsed; \<^verbatim>\<open>saveRejectedFixes\<close> writes the map, and when the write
  throws the file is as before.\<close>

definition loadRejectedFixes :: "wards_file \<Rightarrow> rejection_memory \<Rightarrow> rejection_memory" where
  "loadRejectedFixes f current =
     (case f of Absent \<Rightarrow> current | Corrupt \<Rightarrow> Map.empty | Stored m \<Rightarrow> m)"

definition saveRejectedFixes :: "bool \<Rightarrow> rejection_memory \<Rightarrow> wards_file \<Rightarrow> wards_file" where
  "saveRejectedFixes write_ok m f = (if write_ok then Stored m else f)"

section \<open>Ordering the candidates\<close>

text \<open>The comparator given to \<^verbatim>\<open>stringFixes.sort\<close>; a negative value puts \<open>a\<close> first.\<close>

definition compare_fixes :: "string_fix \<Rightarrow> string_fix \<Rightarrow> int" where
  "compare_fixes a b =
     (if start_line b \<noteq> start_line a then int (start_line b) - int (start_line a)
      else int (start_column b) - int (start_column a))"

text \<open>\<^verbatim>\<open>Array.prototype.sort\<close> is stable: entries that compare equal keep their order.\<close>

fun insert_fix :: "string_fix \<Rightarrow> string_fix list \<Rightarrow> string_fix list" where
  "insert_fix x [] = [x]"
| "insert_fix x (y # ys) =
     (if compare_fixes x y \<le> 0 then x # y # ys else y # insert_fix x ys)"

definition sort_fixes :: "string_fix list \<Rightarrow> string_fix list" where
  "sort_fixes fs = foldr insert_fix fs []"

section \<open>Safe Text Patcher\<close>

text \<open>\<^verbatim>\<open>fileLines[line - 1 + i]\<close>: \<open>None\<close> for \<^verbatim>\<open>undefined\<close>.\<close>

definition line_index :: "nat \<Rightarrow> nat \<Rightarrow> nat option" where
  "line_index line i = (if 1 \<le> line + i then Some (line + i - 1) else None)"

definition get_line :: "string list \<Rightarrow> nat \<Rightarrow> nat \<Rightarrow> string option" where
  "get_line fileLines line i =
     (case line_index line i of
        None \<Rightarrow> None
      | Some k \<Rightarrow> if k < length fileLines then Some (fileLines ! k) else None)"

text \<open>What a patch of one line does: the line was replaced, nothing was replaced, the
  function \<^verbatim>\<open>processFile\<close> returned at once, or an exception was thrown before
  anything was replaced.\<close>

datatype patch_result = Patched "string list" | Unpatched | PatchAbort | PatchThrew

text \<open>String literal: \<^verbatim>\<open>targetLine[column]\<close> past the end is \<^verbatim>\<open>undefined\<close>, which
  \<^verbatim>\<open>indexOf\<close> looks for as the text \<^verbatim>\<open>undefined\<close>.\<close>

definition applyLiteral :: "string list \<Rightarrow> string_fix \<Rightarrow> patch_result" where
  "applyLiteral fileLines fx =
     (case get_line fileLines (start_line fx) 0 of
        None \<Rightarrow> PatchThrew
      | Some targetLine \<Rightarrow>
         (let quoteChar = (if start_column fx < length targetLine
                           then [targetLine ! start_column fx] else ''undefined'');
              stringStart = start_column fx + 1
          in case indexOf targetLine quoteChar stringStart of
               None \<Rightarrow> Unpatched
             | Some closingQuotePos \<Rightarrow>
                 if closingQuotePos > stringStart then
                   (let stringContent = substring targetLine stringStart closingQuotePos
                    in if stringContent = original fx then
                         Patched (fileLines[start_line fx - 1 :=
                           substring targetLine 0 stringStart @ escaped fx @
                           substring_from targetLine closingQuotePos])
                       else Unpatched)
                 else Unpatched))"

text \<open>Single-line markup text.\<close>

definition safeEscaped :: "string \<Rightarrow> string" where
  "safeEscaped orig =
     concat (map (\<lambda>c. if c = apostrophe then ''&apos;''
                      else if c = dquote then ''&quot;'' else [c]) orig)"

definition applyJsxSingle :: "string list \<Rightarrow> string_fix \<Rightarrow> patch_result" where
  "applyJsxSingle fileLines fx =
     (case get_line fileLines (start_line fx) 0 of
        None \<Rightarrow> PatchThrew
      | Some targetLine \<Rightarrow>
          if str_includes targetLine ''<'' \<and> str_includes targetLine ''>'' then PatchAbort
          else case indexOf targetLine (original fx) 0 of
                 None \<Rightarrow> Unpatched
               | Some textIndex \<Rightarrow>
                   Patched (fileLines[start_line fx - 1 :=
                     substring targetLine 0 textIndex @ safeEscaped (original fx) @
                     substring_from targetLine (textIndex + length (original fx))]))"

text \<open>Multi-line markup text.\<close>

definition isInsideJsxTag :: "string \<Rightarrow> nat \<Rightarrow> bool" where
  "isInsideJsxTag line position =
     (let lastOpenBracket = lastIndexOf line (CHR ''<'') position;
          lastCloseBracket = lastIndexOf line (CHR ''>'') position
      in case lastOpenBracket of
           None \<Rightarrow> False
         | Some opn \<Rightarrow> (case lastCloseBracket of None \<Rightarrow> True | Some cls \<Rightarrow> opn > cls))"

lemma indexOf_aux_bounds:
  "indexOf_aux s sub i = Some p \<Longrightarrow> i \<le> p \<and> p + length sub \<le> i + length s"
proof (induction s arbitrary: i)
  case Nil
  then show ?case by (auto split: if_splits)
next
  case (Cons c s)
  show ?case
  proof (cases "prefix sub (c # s)")
    case True
    with Cons.prems show ?thesis by (auto dest: prefix_length_le)
  next
    case False
    with Cons.prems have "indexOf_aux s sub (Suc i) = Some p" by simp
    from Cons.IH [OF this] show ?thesis by simp
  qed
qed

lemma indexOf_bounds:
  "indexOf s sub from = Some p \<Longrightarrow> from \<le> length s \<Longrightarrow> from \<le> p \<and> p + length sub \<le> length s"
  unfolding indexOf_def by (drule indexOf_aux_bounds) (auto simp: min_def)

lemma indexOf_bounds':
  "indexOf s sub from = Some p \<Longrightarrow> sub \<noteq> [] \<Longrightarrow> from \<le> p \<and> p + length sub \<le> length s"
proof (cases "from \<le> length s")
  case True
  assume "indexOf s sub from = Some p"
  with True show ?thesis by (rule indexOf_bounds [rotated])
next
  case False
  assume "indexOf s sub from = Some p" "sub \<noteq> []"
  with False show ?thesis by (simp add: indexOf_def)
qed

function escape_apostrophes :: "string \<Rightarrow> nat \<Rightarrow> string" where
  "escape_apostrophes newLine pos =
     (case indexOf newLine [apostrophe] pos of
        None \<Rightarrow> newLine
      | Some p \<Rightarrow>
          if isInsideJsxTag newLine p then escape_apostrophes newLine (p + 1)
          else if \<not> str_includes (substring newLine (p - 5) p) ''&apos'' then
            escape_apostrophes
              (substring newLine 0 p @ ''&apos;'' @ substring_from newLine (p + 1)) (p + 6)
          else escape_apostrophes newLine (p + 1))"
  by pat_completeness auto
termination
proof (relation "measure (\<lambda>(newLine, pos). length newLine - pos)", goal_cases)
  case 1
  then show ?case by simp
next
  case (2 newLine pos p)
  from indexOf_bounds' [OF 2(1)] show ?case by (simp add: apostrophe_def) arith
next
  case (3 newLine pos p)
  from indexOf_bounds' [OF 3(1)] show ?case
    by (simp add: substring_def substring_from_def min_def apostrophe_def) arith
next
  case (4 newLine pos p)
  from indexOf_bounds' [OF 4(1)] show ?case by (simp add: apostrophe_def) arith
qed

text \<open>The \<^verbatim>\<open>for\<close> loop over the lines of \<^verbatim>\<open>rawValue\<close>: the result is the new
  \<^verbatim>\<open>fileLines\<close> and whether \<^verbatim>\<open>changed = true\<close> was executed. \<^verbatim>\<open>!fileLine\<close> holds for
  \<^verbatim>\<open>undefined\<close> and for the empty line, and leaves the loop.\<close>

fun multiline_loop :: "nat \<Rightarrow> nat \<Rightarrow> string list \<Rightarrow> string list \<Rightarrow> bool \<Rightarrow> string list \<times> bool" where
  "multiline_loop startLine i [] fileLines chg = (fileLines, chg)"
| "multiline_loop startLine i (l # ls) fileLines chg =
     (let currentLine = trim l
      in if currentLine = [] then multiline_loop startLine (Suc i) ls fileLines chg
         else case get_line fileLines startLine i of
                None \<Rightarrow> (fileLines, chg)
              | Some fileLine \<Rightarrow>
                  if fileLine = [] then (fileLines, chg)
                  else if str_includes currentLine [apostrophe] then
                    (let newLine = escape_apostrophes fileLine 0
                     in if newLine \<noteq> fileLine
                        then multiline_loop startLine (Suc i) ls
                               (fileLines[startLine + i - 1 := newLine]) True
                        else multiline_loop startLine (Suc i) ls fileLines chg)
                  else multiline_loop startLine (Suc i) ls fileLines chg)"

text \<open>What applying one approved fix does: \<open>Applied ls c\<close> leaves \<^verbatim>\<open>fileLines\<close> as \<open>ls\<close>
  and has executed \<^verbatim>\<open>changed = true\<close> iff \<open>c\<close>; \<open>AbortFile\<close> is the \<^verbatim>\<open>return\<close> out of
  \<^verbatim>\<open>processFile\<close>; \<open>Threw\<close> is an exception that reaches the \<^verbatim>\<open>catch\<close> of the prompt
  loop before anything was replaced.\<close>

datatype apply_result = Applied "string list" bool | AbortFile | Threw

definition apply_fix :: "string list \<Rightarrow> string_fix \<Rightarrow> apply_result" where
  "apply_fix fileLines fx =
     (if isJsx fx then
        (if str_includes (original fx) [newline] \<or> str_includes (rawValue fx) [newline] then
           (let r = multiline_loop (start_line fx) 0 (split_lines (rawValue fx)) fileLines False
            in Applied (fst r) (snd r))
         else case applyJsxSingle fileLines fx of
                Patched ls \<Rightarrow> Applied ls True
              | Unpatched \<Rightarrow> Applied fileLines False
              | PatchAbort \<Rightarrow> AbortFile
              | PatchThrew \<Rightarrow> Threw)
      else case applyLiteral fileLines fx of
             Patched ls \<Rightarrow> Applied ls True
           | Unpatched \<Rightarrow> Applied fileLines False
           | PatchAbort \<Rightarrow> AbortFile
           | PatchThrew \<Rightarrow> Threw)"

section \<open>The file on disk\<close>

record disk_file =
  content :: string
  mtimeMs :: nat

text \<open>What other processes do to the file while the program waits: nothing, a rewrite, or
  its removal.\<close>

datatype external = Quiet | Rewritten disk_file | Removed

fun apply_external :: "external \<Rightarrow> disk_file option \<Rightarrow> disk_file option" where
  "apply_external Quiet d = d"
| "apply_external (Rewritten f) d = Some f"
| "apply_external Removed d = None"

text \<open>\<^verbatim>\<open>fs.statSync(filePath).mtimeMs\<close> and \<^verbatim>\<open>fs.readFileSync(filePath, 'utf8')\<close>; \<open>None\<close>
  when the call throws.\<close>

definition statSync :: "disk_file option \<Rightarrow> nat option" where
  "statSync d = map_option mtimeMs d"

definition readFileSync :: "disk_file option \<Rightarrow> string option" where
  "readFileSync d = map_option content d"

text \<open>The environment of one call of \<^verbatim>\<open>processFile\<close>: whether \<^verbatim>\<open>fs.writeFileSync\<close>
  succeeds, the modification time a write leaves, what other processes do between the write
  and the read-back, and the value of \<^verbatim>\<open>new Date().toISOString()\<close>.\<close>

record fs_env =
  write_ok :: bool
  clock :: nat
  after_write :: external
  timestamp :: string

definition writeFileSync :: "fs_env \<Rightarrow> string \<Rightarrow> disk_file option option" where
  "writeFileSync env text =
     (if write_ok env then Some (Some \<lparr>content = text, mtimeMs = clock env\<rparr>) else None)"

text \<open>\<^verbatim>\<open>checkFileModification\<close> on the entry \<^verbatim>\<open>fileModTimes[filePath]\<close>: the answer and
  the new entry. A stored time of \<open>0\<close> is falsy; a failing \<^verbatim>\<open>statSync\<close> is caught and
  answers \<^verbatim>\<open>false\<close>.\<close>

definition checkFileModification :: "nat option \<Rightarrow> disk_file option \<Rightarrow> bool \<times> nat option" where
  "checkFileModification recorded d =
     (case statSync d of
        None \<Rightarrow> (False, recorded)
      | Some currentModTime \<Rightarrow>
          (case recorded of
             None \<Rightarrow> (False, Some currentModTime)
           | Some t \<Rightarrow>
               if t \<noteq> 0 \<and> t \<noteq> currentModTime then (True, recorded)
               else (False, Some currentModTime)))"

section \<open>Interactive Review Loop\<close>

text \<open>The value \<^verbatim>\<open>getSingleKeypress\<close> resolves to, or its rejection.\<close>

datatype response = KeyY | KeyN | KeyQ | KeyC | KeyRejected

record event =
  key :: response
  external :: external

text \<open>What the user is shown and the warnings that matter below.\<close>

datatype trace_note =
    Prompted string
  | Informed string
  | SkippedRejected string
  | WarnModified
  | WarnCorrupt
  | LogSaved nat
  | LogError

record pstate =
  fileLines :: "string list"
  changed :: bool
  rejectedFixes :: rejection_memory
  modTime :: "nat option"
  disk :: "disk_file option"
  trace :: "trace_note list"

definition add_note :: "trace_note \<Rightarrow> pstate \<Rightarrow> pstate" where
  "add_note n st = st\<lparr>trace := trace st @ [n]\<rparr>"

text \<open>How \<^verbatim>\<open>processFile\<close> ends: the loop ran to its end (\<open>LoopDone\<close>, before the final
  save), \<^verbatim>\<open>process.exit(0)\<close> after \<^verbatim>\<open>q\<close>, a \<^verbatim>\<open>return\<close>, the outer \<^verbatim>\<open>catch\<close>, or
  the program still waits for a key when the input ends.\<close>

datatype ending = LoopDone | ExitedOnQuit | ReturnedEarly | ErrorCaught | AwaitingKey

text \<open>The save on \<^verbatim>\<open>q\<close>: no check of the text, the write is not read back.\<close>

definition quit_save :: "fs_env \<Rightarrow> pstate \<Rightarrow> pstate" where
  "quit_save env st =
     (if changed st then
        (case writeFileSync env (join_lines (fileLines st)) of
           None \<Rightarrow> add_note LogError st
         | Some d \<Rightarrow>
             (case statSync d of
                None \<Rightarrow> add_note LogError (st\<lparr>disk := d\<rparr>)
              | Some t \<Rightarrow> add_note (LogSaved 0) (st\<lparr>disk := d, modTime := Some t\<rparr>)))
      else st)"

definition reject_record :: "fs_env \<Rightarrow> string \<Rightarrow> string_fix \<Rightarrow> rejected_fix" where
  "reject_record env filePath fx =
     \<lparr>rj_filePath = filePath, rj_line = start_line fx, rj_column = start_column fx,
      rj_original = original fx, rj_autoSkipped = False, rj_reason = None,
      rj_timestamp = timestamp env\<rparr>"

text \<open>The \<^verbatim>\<open>while (true)\<close> loop of one fix. The first component is \<open>None\<close> when the
  \<^verbatim>\<open>for\<close> loop goes on with the next fix.\<close>

fun prompt_fix ::
  "fs_env \<Rightarrow> string \<Rightarrow> string_fix \<Rightarrow> pstate \<Rightarrow> event list \<Rightarrow> ending option \<times> pstate \<times> event list" where
  "prompt_fix env filePath fx st [] = (Some AwaitingKey, st, [])"
| "prompt_fix env filePath fx st (ev # evs) =
     (let st1 = st\<lparr>disk := apply_external (external ev) (disk st)\<rparr>
      in case key ev of
           KeyRejected \<Rightarrow> (None, add_note LogError st1, evs)
         | KeyC \<Rightarrow> prompt_fix env filePath fx st1 evs
         | k \<Rightarrow>
            (let chk = checkFileModification (modTime st1) (disk st1)
             in if fst chk then (None, add_note WarnModified st1, evs)
                else
                  (let st2 = st1\<lparr>modTime := snd chk\<rparr>
                   in if k = KeyQ then (Some ExitedOnQuit, quit_save env st2, evs)
                      else if k = KeyY then
                        (case apply_fix (fileLines st2) fx of
                           Applied ls c \<Rightarrow>
                             (None, st2\<lparr>fileLines := ls, changed := (changed st2 \<or> c)\<rparr>, evs)
                         | AbortFile \<Rightarrow> (Some ReturnedEarly, st2, evs)
                         | Threw \<Rightarrow> (None, add_note LogError st2, evs))
                      else
                        (None,
                         st2\<lparr>rejectedFixes := (rejectedFixes st2)
                               (createFixKey filePath (start_line fx) (start_column fx) (original fx)
                                  \<mapsto> reject_record env filePath fx)\<rparr>,
                         evs))))"

text \<open>The \<^verbatim>\<open>for\<close> loop over the sorted entries.\<close>

fun review :: "fs_env \<Rightarrow> string \<Rightarrow> string_fix list \<Rightarrow> pstate \<Rightarrow> event list \<Rightarrow> ending \<times> pstate" where
  "review env filePath [] st evs = (LoopDone, st)"
| "review env filePath (fx # fxs) st evs =
     (if entry_type fx = Information then
        (case readFileSync (disk st) of
           None \<Rightarrow> (ErrorCaught, add_note LogError st)
         | Some _ \<Rightarrow>
            (case evs of
               [] \<Rightarrow> (AwaitingKey, add_note (Informed (message fx)) st)
             | ev # evs' \<Rightarrow>
                 review env filePath fxs
                   (add_note (Informed (message fx))
                      (st\<lparr>disk := apply_external (external ev) (disk st)\<rparr>)) evs'))
      else
        (let fixKey = createFixKey filePath (start_line fx) (start_column fx) (original fx)
         in if rejectedFixes st fixKey \<noteq> None
            then review env filePath fxs (add_note (SkippedRejected fixKey) st) evs
            else case prompt_fix env filePath fx (add_note (Prompted fixKey) st) evs of
                   (Some e, st', evs') \<Rightarrow> (e, st')
                 | (None, st', evs') \<Rightarrow> review env filePath fxs st' evs'))"

text \<open>The final save of \<^verbatim>\<open>processFile\<close>: the text is refused when it holds
  \<^verbatim>\<open>&amp;lt;\<close> or \<^verbatim>\<open>&amp;gt;\<close>; otherwise it is written and read back, and the length of
  what was read is logged.\<close>

definition final_save :: "fs_env \<Rightarrow> pstate \<Rightarrow> pstate" where
  "final_save env st =
     (if changed st then
        (let fileContent = join_lines (fileLines st)
         in if str_includes fileContent ''&amp;lt;'' \<or> str_includes fileContent ''&amp;gt;''
            then add_note WarnCorrupt st
            else case writeFileSync env fileContent of
                   None \<Rightarrow> add_note LogError st
                 | Some d \<Rightarrow>
                    (let d' = apply_external (after_write env) d
                     in case readFileSync d' of
                          None \<Rightarrow> add_note LogError (st\<lparr>disk := d'\<rparr>)
                        | Some newContents \<Rightarrow>
                           (case statSync d' of
                              None \<Rightarrow> add_note LogError (st\<lparr>disk := d'\<rparr>)
                            | Some t \<Rightarrow>
                                add_note (LogSaved (length newContents))
                                  (st\<lparr>disk := d', modTime := Some t\<rparr>))))
      else st)"

text \<open>\<^verbatim>\<open>processFile\<close> from the sort on: the entries found by the traversal are sorted,
  reviewed and, when the loop ran to its end, saved.\<close>

definition review_and_save ::
  "fs_env \<Rightarrow> string \<Rightarrow> string_fix list \<Rightarrow> pstate \<Rightarrow> event list \<Rightarrow> ending \<times> pstate" where
  "review_and_save env filePath stringFixes st evs =
     (if stringFixes = [] then (ReturnedEarly, st)
      else case review env filePath (sort_fixes stringFixes) st evs of
             (LoopDone, st') \<Rightarrow> (LoopDone, final_save env st')
           | r \<Rightarrow> r)"

text \<open>\<^verbatim>\<open>writeFileWithVerification\<close> of \<^verbatim>\<open>lib/file.js\<close>: the length read back, or the
  error it throws when the text read back differs (or a call of \<^verbatim>\<open>fs\<close> throws).\<close>

datatype file_error = VerificationFailed | FsError

definition writeFileWithVerification ::
  "fs_env \<Rightarrow> string \<Rightarrow> (file_error + nat) \<times> disk_file option option" where
  "writeFileWithVerification env text =
     (case writeFileSync env text of
        None \<Rightarrow> (Inl FsError, None)
      | Some d \<Rightarrow>
         (let d' = apply_external (after_write env) d
          in case readFileSync d' of
               None \<Rightarrow> (Inl FsError, Some d')
             | Some newContent \<Rightarrow>
                 if newContent \<noteq> text then (Inl VerificationFailed, Some d')
                 else (Inr (length newContent), Some d')))"

section \<open>Candidate Extractor\<close>

text \<open>\<^verbatim>\<open>isSafeToEscapeInJsx\<close>. The pattern \<^verbatim>\<open>/<[^>]*'[^>]*>/\<close> matches iff some \<^verbatim>\<open><\<close> is
  followed by an apostrophe before the next \<^verbatim>\<open>>\<close>, and that \<^verbatim>\<open>>\<close> exists.\<close>

definition tag_with_apostrophe_at :: "string \<Rightarrow> bool" where
  "tag_with_apostrophe_at s =
     (prefix ''<'' s \<and>
      (let inner = takeWhile (\<lambda>c. c \<noteq> CHR ''>'') (drop 1 s)
       in length inner < length (drop 1 s) \<and> apostrophe \<in> set inner))"

fun tagPattern :: "string \<Rightarrow> bool" where
  "tagPattern [] = False"
| "tagPattern (c # s) = (tag_with_apostrophe_at (c # s) \<or> tagPattern s)"

definition isSafeToEscapeInJsx :: "string \<Rightarrow> string \<Rightarrow> bool" where
  "isSafeToEscapeInJsx orig line =
     (if str_includes orig ''<'' \<and> str_includes orig ''>'' then False
      else if tagPattern orig \<or> tagPattern line then False
      else True)"

text \<open>\<^verbatim>\<open>isAlreadyFixed\<close> on the text read at the start. Line numbers come from the parser
  and start at 1.\<close>

definition isAlreadyFixed :: "string \<Rightarrow> nat \<Rightarrow> nat \<Rightarrow> string \<Rightarrow> string \<Rightarrow> bool" where
  "isAlreadyFixed fileContent line column orig esc =
     (let fileLines = split_lines fileContent
      in if str_includes orig [newline] then
           (let originalLines = split_lines orig
            in if list_ex (\<lambda>i. case get_line fileLines line i of
                                  None \<Rightarrow> False
                                | Some currentLine \<Rightarrow>
                                    currentLine \<noteq> [] \<and> containsHtmlEntities (trim currentLine))
                    [0..<length originalLines]
               then True
               else containsHtmlEntities
                      (join_lines (slice fileLines (line - 1) (line - 1 + length originalLines))))
         else
           (case get_line fileLines line 0 of
              None \<Rightarrow> False
            | Some fileLine \<Rightarrow>
                if fileLine \<noteq> [] \<and> str_includes fileLine esc then True
                else fileLine \<noteq> [] \<and> containsHtmlEntities (substr fileLine (column - 20) 100)))"

text \<open>\<^verbatim>\<open>checkRawFileContent\<close> reads the file again; \<open>None\<close> is a read that throws.\<close>

definition checkRawFileContent :: "string option \<Rightarrow> nat \<Rightarrow> nat \<Rightarrow> string \<Rightarrow> bool" where
  "checkRawFileContent file line column orig =
     (case file of
        None \<Rightarrow> False
      | Some fileContent \<Rightarrow>
         (let lines = split_lines fileContent
          in if line = 0 \<or> line > length lines then False
             else
               (let lineContent = lines ! (line - 1)
                in if str_includes lineContent ''&apos;'' \<or> str_includes lineContent ''&quot;'' \<or>
                      str_includes lineContent ''&lt;'' \<or> str_includes lineContent ''&gt;''
                   then
                     (if orig \<noteq> [] then
                        (let escapedVersion =
                               replaceAll ''>'' ''&gt;'' (replaceAll ''<'' ''&lt;''
                                 (replaceAll [dquote] ''&quot;''
                                    (replaceAll [apostrophe] ''&apos;'' orig)))
                         in if str_includes lineContent escapedVersion then True
                            else str_includes
                                   (join_lines (slice lines (line - 2) (min (length lines) (line + 2))))
                                   escapedVersion)
                      else True)
                   else False)))"

text \<open>A node the traversal visits: a string literal or a markup text, its value, where it
  starts, and what \<^verbatim>\<open>isReactPropValue\<close> answers for its path.\<close>

datatype node_kind = StringLiteral | JSXText

record ast_node =
  kind :: node_kind
  node_value :: string
  node_line :: nat
  node_column :: nat
  react_prop :: bool

record scan_state =
  stringFixes :: "string_fix list"
  scan_rejected :: rejection_memory

definition has_managed :: "string \<Rightarrow> bool" where
  \<open>has_managed s =
     (str_includes s [apostrophe] \<or> str_includes s [dquote] \<or> str_includes s ''<'' \<or>
      str_includes s ''>'' \<or> str_includes s ''&'')\<close>

definition information_entry :: "string \<Rightarrow> ast_node \<Rightarrow> string \<Rightarrow> string \<Rightarrow> string_fix" where
  "information_entry filePath nd orig reason =
     \<lparr>entry_type = Information,
      message = ''Potentially already escaped content at '' @ filePath @ '':'' @
                string_of_nat (node_line nd) @ '' ('' @ reason @ '')'',
      original = orig, escaped = [], escapedChars = [],
      start_line = node_line nd, start_column = node_column nd, isJsx = False, rawValue = []\<rparr>"

definition autoskip_record :: "fs_env \<Rightarrow> string \<Rightarrow> ast_node \<Rightarrow> string \<Rightarrow> string \<Rightarrow> rejected_fix" where
  "autoskip_record env filePath nd orig reason =
     \<lparr>rj_filePath = filePath, rj_line = node_line nd, rj_column = node_column nd,
      rj_original = orig, rj_autoSkipped = True, rj_reason = Some reason,
      rj_timestamp = timestamp env\<rparr>"

text \<open>The two visitors share everything from the window check on, except that the markup
  visitor works on the trimmed value, tests the raw value for entities, and records the raw
  value in the fix. \<open>file\<close> is what a read of the file returns during the traversal.\<close>

definition visit_tail ::
  "bool \<Rightarrow> fs_env \<Rightarrow> string \<Rightarrow> string \<Rightarrow> string option \<Rightarrow> ast_node \<Rightarrow> string \<Rightarrow> scan_state \<Rightarrow> scan_state" where
  "visit_tail strictMode env filePath fileContent file nd orig st =
     (case isAlreadyEscapedInLineWindow file (node_line nd) orig of
        Matched High reason \<Rightarrow> st
      | Matched Medium reason \<Rightarrow>
          if strictMode
          then st\<lparr>stringFixes := stringFixes st @ [information_entry filePath nd orig reason]\<rparr>
          else st
      | _ \<Rightarrow>
          if checkRawFileContent file (node_line nd) (node_column nd) (node_value nd) then st
          else if kind nd = JSXText \<and> containsHtmlEntities (node_value nd) then st
          else if \<not> isSafeToEscapeInJsx orig
                     (line_or_empty (split_lines fileContent) (node_line nd)) then st
          else
            (case escapeString strictMode orig of
               Unchanged _ \<Rightarrow> st
             | Escaped res chars \<Rightarrow>
                 if res = orig then st
                 else if isAlreadyFixed fileContent (node_line nd) (node_column nd) orig res then st
                 else
                   (case isAutoSkipPattern strictMode orig filePath (node_line nd) (node_column nd) of
                      Some reason \<Rightarrow>
                        st\<lparr>scan_rejected := (scan_rejected st)
                             (createFixKey filePath (node_line nd) (node_column nd) orig
                                \<mapsto> autoskip_record env filePath nd orig reason)\<rparr>
                    | None \<Rightarrow>
                        st\<lparr>stringFixes := stringFixes st @
                             [\<lparr>entry_type = FixEntry, message = [], original = orig, escaped = res,
                               escapedChars = chars, start_line = node_line nd,
                               start_column = node_column nd, isJsx = (kind nd = JSXText),
                               rawValue = (if kind nd = JSXText then node_value nd else [])\<rparr>]\<rparr>)))"

definition visit ::
  "bool \<Rightarrow> fs_env \<Rightarrow> string \<Rightarrow> string \<Rightarrow> string option \<Rightarrow> scan_state \<Rightarrow> ast_node \<Rightarrow> scan_state" where
  "visit strictMode env filePath fileContent file st nd =
     (case kind nd of
        StringLiteral \<Rightarrow>
          if \<not> has_managed (node_value nd) then st
          else if react_prop nd then st
          else visit_tail strictMode env filePath fileContent file nd (node_value nd) st
      | JSXText \<Rightarrow>
          (let orig = trim (node_value nd)
           in if orig = [] then st
              else if \<not> has_managed orig then st
              else visit_tail strictMode env filePath fileContent file nd orig st))"

definition traverse ::
  "bool \<Rightarrow> fs_env \<Rightarrow> string \<Rightarrow> string \<Rightarrow> string option \<Rightarrow> ast_node list \<Rightarrow> rejection_memory \<Rightarrow> scan_state" where
  "traverse strictMode env filePath fileContent file nodes rejected =
     foldl (visit strictMode env filePath fileContent file)
       \<lparr>stringFixes = [], scan_rejected = rejected\<rparr> nodes"

text \<open>\<^verbatim>\<open>processFile\<close>. The parser is a black box: \<open>parse\<close> maps the text to the nodes in
  the order they are visited, or to \<open>None\<close> when it throws. The file is not touched by others
  before the first prompt. Besides the endings of the review there are the skip of a file
  above the size limit and the parse error.\<close>

datatype file_result = Reviewed ending | TooLarge | ParseFailed | StatFailed

definition MAX_FILE_SIZE :: nat where
  "MAX_FILE_SIZE = 1024 * 1024"

definition processFile ::
  "bool \<Rightarrow> fs_env \<Rightarrow> string \<Rightarrow> (string \<Rightarrow> ast_node list option) \<Rightarrow> rejection_memory \<Rightarrow>
   disk_file option \<Rightarrow> event list \<Rightarrow> file_result \<times> pstate" where
  "processFile strictMode env filePath parse rejected d evs =
     (let st0 = \<lparr>fileLines = [], changed = False, rejectedFixes = rejected,
                 modTime = statSync d, disk = d, trace = []\<rparr>
      in case d of
           None \<Rightarrow> (StatFailed, add_note LogError st0)
         | Some f \<Rightarrow>
             if length (content f) > MAX_FILE_SIZE then (TooLarge, st0)
             else case parse (content f) of
                    None \<Rightarrow> (ParseFailed, add_note LogError st0)
                  | Some nodes \<Rightarrow>
                     (let scan = traverse strictMode env filePath (content f) (Some (content f))
                                   nodes rejected;
                          r = review_and_save env filePath (stringFixes scan)
                                (st0\<lparr>fileLines := split_lines (content f),
                                     rejectedFixes := scan_rejected scan\<rparr>) evs
                      in (Reviewed (fst r), snd r)))"

text \<open>One run of the program on one file: the memory is loaded, the file processed, the
  memory saved (also on \<^verbatim>\<open>q\<close>, before the exit).\<close>

definition run ::
  "bool \<Rightarrow> fs_env \<Rightarrow> string \<Rightarrow> (string \<Rightarrow> ast_node list option) \<Rightarrow> wards_file \<Rightarrow>
   disk_file option \<Rightarrow> event list \<Rightarrow> file_result \<times> pstate \<times> wards_file" where
  "run strictMode env filePath parse wards d evs =
     (let r = processFile strictMode env filePath parse (loadRejectedFixes wards Map.empty) d evs
      in (fst r, snd r, saveRejectedFixes (write_ok env) (rejectedFixes (snd r)) wards))"

section \<open>Observations used by the statements\<close>

text \<open>The entity texts of the escape table, and the matches of
  \<^verbatim>\<open>/&(quot|apos|amp|lt|gt);/g\<close> in a text, from left to right. Such a match starts with
  the only \<^verbatim>\<open>&\<close> it holds, so no two matches overlap and every start position counts.\<close>

definition entity_tokens :: "string list" where
  "entity_tokens = [''&quot;'', ''&apos;'', ''&amp;'', ''&lt;'', ''&gt;'']"

fun entity_matches :: "string \<Rightarrow> string list" where
  "entity_matches [] = []"
| "entity_matches (c # s) =
     (case find (\<lambda>t. prefix t (c # s)) entity_tokens of
        Some t \<Rightarrow> t # entity_matches s
      | None \<Rightarrow> entity_matches s)"

text \<open>The replacement the specification words describe for a text with an angle bracket
  (quote and apostrophe become their entity, anything else stays), and for a text without one
  (the ampersand is replaced as well).\<close>

definition escape_quotes_only :: "char \<Rightarrow> string" where
  \<open>escape_quotes_only c =
     (if c = CHR ''"'' then ''&quot;'' else if c = CHR 0x27 then ''&apos;'' else [c])\<close>

definition escape_managed :: "char \<Rightarrow> string" where
  \<open>escape_managed c =
     (if c = CHR ''"'' then ''&quot;'' else if c = CHR 0x27 then ''&apos;''
      else if c = CHR ''&'' then ''&amp;'' else [c])\<close>









text \<open>The user approves and nothing touches the file meanwhile.\<close>

definition approve :: event where
  "approve = \<lparr>key = KeyY, external = Quiet\<rparr>"

text \<open>The persisted memory holds a key; a trace entry is a prompt.\<close>

definition wards_has :: "string \<Rightarrow> wards_file \<Rightarrow> bool" where
  "wards_has k w = (case w of Stored m \<Rightarrow> m k \<noteq> None | _ \<Rightarrow> False)"

fun is_prompt :: "trace_note \<Rightarrow> bool" where
  "is_prompt (Prompted _) = True"
| "is_prompt _ = False"

section \<open>Example inputs\<close>

text \<open>A literal candidate and a markup-text candidate as the traversal records them, a quiet
  environment, and the state of \<^verbatim>\<open>processFile\<close> when the review starts on a file last
  modified at time \<open>1000\<close>.\<close>

definition literal_fix :: "string \<Rightarrow> string \<Rightarrow> nat \<Rightarrow> nat \<Rightarrow> string_fix" where
  "literal_fix orig esc l c =
     \<lparr>entry_type = FixEntry, message = [], original = orig, escaped = esc,
      escapedChars = [apostrophe], start_line = l, start_column = c, isJsx = False,
      rawValue = []\<rparr>"


definition quiet_env :: fs_env where
  "quiet_env = \<lparr>write_ok = True, clock = 2000, after_write = Quiet,
     timestamp = ''2024-01-01T00:00:00.000Z''\<rparr>"

definition opened :: "string \<Rightarrow> pstate" where
  "opened text =
     \<lparr>fileLines = split_lines text, changed = False, rejectedFixes = Map.empty,
      modTime = Some 1000, disk = Some \<lparr>content = text, mtimeMs = 1000\<rparr>, trace = []\<rparr>"





text \<open>Three literals on three lines; while the second prompt waits, an editor rewrites the
  file.\<close>

definition three_literals :: "string_fix list" where
  \<open>three_literals =
     [literal_fix ''It's'' ''It&apos;s'' 1 10, literal_fix ''Don't'' ''Don&apos;t'' 2 10,
      literal_fix ''Can't'' ''Can&apos;t'' 3 10]\<close>

definition three_literals_opened :: pstate where
  \<open>three_literals_opened =
     opened (''const a = "It's";'' @ newline # ''const b = "Don't";'' @ newline #
             ''const c = "Can't";'')\<close>

definition rewritten_meanwhile :: "event list" where
  \<open>rewritten_meanwhile =
     [approve,
      \<lparr>key = KeyY,
       external = Rewritten \<lparr>content = ''// rewritten by an editor'', mtimeMs = 1500\<rparr>\<rparr>,
      approve]\<close>

text \<open>Another process rewrites the file between the final write and the read-back.\<close>

definition watcher_env :: fs_env where
  \<open>watcher_env = quiet_env\<lparr>after_write :=
      Rewritten \<lparr>content = ''const c="Can&apos;t"'', mtimeMs = 2001\<rparr>\<rparr>\<close>

definition one_patched :: pstate where
  \<open>one_patched = (opened ''const c = "Can't";'')
      \<lparr>fileLines := [''const c = "Can&apos;t";''], changed := True\<rparr>\<close>

text \<open>A file with one literal, the parser's answer for it, a user who declines, and two runs in
  a row: the first in normal mode with no memory file, the second in strict mode on the
  memory the first run saved.\<close>

definition one_literal_file :: disk_file where
  \<open>one_literal_file = \<lparr>content = ''const a = "It's";'', mtimeMs = 1000\<rparr>\<close>

definition one_literal_parse :: "string \<Rightarrow> ast_node list option" where
  \<open>one_literal_parse text =
     Some [\<lparr>kind = StringLiteral, node_value = ''It's'', node_line = 1, node_column = 10,
            react_prop = False\<rparr>]\<close>

definition decline :: event where
  "decline = \<lparr>key = KeyN, external = Quiet\<rparr>"

definition first_run :: "file_result \<times> pstate \<times> wards_file" where
  "first_run = run False quiet_env ''a.js'' one_literal_parse Absent (Some one_literal_file) [decline]"

definition second_run :: "file_result \<times> pstate \<times> wards_file" where
  "second_run =
     run True quiet_env ''a.js'' one_literal_parse (snd (snd first_run)) (Some one_literal_file)
       [approve]"

text \<open>The literal of scenario B.\<close>

definition filter_node :: ast_node where
  \<open>filter_node = \<lparr>kind = StringLiteral, node_value = ''& filter=active'', node_line = 1,
     node_column = 10, react_prop = False\<rparr>\<close>

definition filter_file :: string where
  \<open>filter_file = ''const q = "& filter=active";''\<close>

section \<open>Basic facts about the string primitives\<close>

lemma str_includes_iff: "str_includes s sub \<longleftrightarrow> (\<exists>p q. s = p @ sub @ q)"
proof (induction s)
  case Nil
  then show ?case by simp
next
  case (Cons c s)
  show ?case
  proof
    assume "str_includes (c # s) sub"
    then consider "prefix sub (c # s)" | "str_includes s sub" by auto
    then show "\<exists>p q. c # s = p @ sub @ q"
    proof cases
      case 1
      then obtain q where "c # s = sub @ q" by (auto simp: prefix_def)
      then have "c # s = [] @ sub @ q" by simp
      then show ?thesis by blast
    next
      case 2
      with Cons.IH obtain p q where "s = p @ sub @ q" by blast
      then have "c # s = (c # p) @ sub @ q" by simp
      then show ?thesis by blast
    qed
  next
    assume "\<exists>p q. c # s = p @ sub @ q"
    then obtain p q where pq: "c # s = p @ sub @ q" by blast
    show "str_includes (c # s) sub"
    proof (cases p)
      case Nil
      with pq have "prefix sub (c # s)" by (simp add: prefix_def)
      then show ?thesis by simp
    next
      case (Cons d p')
      with pq have "s = p' @ sub @ q" by simp
      with Cons.IH have "str_includes s sub" by blast
      then show ?thesis by simp
    qed
  qed
qed

lemma str_includes_char: "str_includes s [c] \<longleftrightarrow> c \<in> set s"
  by (induction s) auto

lemma str_includes_append_mid: "str_includes (p @ sub @ q) sub"
  unfolding str_includes_iff by blast

lemma fst_replace_collect:
  "fst (replace_collect P s) = concat (map (\<lambda>c. if P c then ESCAPES c else [c]) s)"
  by (induction s) (simp_all add: Let_def)

lemma snd_replace_collect: "snd (replace_collect P s) = filter P s"
  by (induction s) (simp_all add: Let_def)

lemma new_Set_foldl:
  "set (foldl (\<lambda>acc x. if x \<in> set acc then acc else acc @ [x]) a xs) = set a \<union> set xs"
  "distinct a \<Longrightarrow> distinct (foldl (\<lambda>acc x. if x \<in> set acc then acc else acc @ [x]) a xs)"
  by (induction xs arbitrary: a) auto

lemma set_new_Set: "set (new_Set xs) = set xs"
  by (simp add: new_Set_def new_Set_foldl)

lemma distinct_new_Set: "distinct (new_Set xs)"
  by (simp add: new_Set_def new_Set_foldl)

lemma new_Set_Nil_iff: "new_Set xs = [] \<longleftrightarrow> xs = []"
  using set_new_Set [of xs] by (metis set_empty)

lemma replaced_has_entity:
  assumes "c \<in> set s" "P c" "managed_class c"
  shows "entityRegex (fst (replace_collect P s))"
proof -
  from assms(1) obtain xs ys where s: "s = xs @ c # ys" by (auto dest: split_list)
  define f where "f = (\<lambda>c. if P c then ESCAPES c else [c])"
  have "fst (replace_collect P s) = concat (map f xs) @ ESCAPES c @ concat (map f ys)"
    using assms(2) by (simp add: fst_replace_collect s f_def)
  then have inc: "str_includes (fst (replace_collect P s)) (ESCAPES c)"
    by (simp add: str_includes_append_mid)
  from assms(3) consider "c = CHR 0x22" | "c = CHR 0x27" | "c = CHR ''&''" | "c = CHR ''<''" | "c = CHR ''>''"
    by (auto simp: managed_class_def)
  then show ?thesis
    using inc by cases (simp_all add: entityRegex_def ESCAPES_def)
qed

section \<open>Properties of the Escape Policy Engine\<close>

lemma escapeString_EscapedD:
  assumes "escapeString strictMode T = Escaped r cs"
  shows "\<not> shouldExcludeFromEscaping strictMode T" "\<not> containsHtmlEntities T"
    "str_includes T ''<'' \<or> str_includes T ''>'' \<Longrightarrow>
       r = fst (replace_collect quote_class T) \<and> cs = new_Set (snd (replace_collect quote_class T))"
    "\<not> str_includes T ''<'' \<Longrightarrow> \<not> str_includes T ''>'' \<Longrightarrow>
       r = fst (replace_collect managed_class T) \<and> cs = new_Set (snd (replace_collect managed_class T))"
  using assms by (auto simp: escapeString_def Let_def split: if_splits)

lemma escapeString_entity_Unchanged:
  "containsHtmlEntities r \<Longrightarrow> escapeString strictMode r = Unchanged r"
  by (simp add: escapeString_def)

text \<open>
  Claim C1, as amended. Whenever the engine returns an escape outcome for \<open>T\<close> and \<open>T\<close> holds
  a character that this outcome replaces (a quote or an apostrophe, or any managed character
  when \<open>T\<close> has no angle bracket), the escaped text holds a recognised entity, and feeding it
  back (in either mode) returns it unchanged: no double escaping.
\<close>
theorem escapeString_idempotent_when_changed:
  assumes "escapeString strictMode T = Escaped r cs"
    and "list_ex quote_class T \<or>
         (list_ex managed_class T \<and> \<not> str_includes T ''<'' \<and> \<not> str_includes T ''>'')"
  shows "containsHtmlEntities r \<and> escapeString strictMode' r = Unchanged r"
proof -
  have "entityRegex r"
  proof (cases "str_includes T ''<'' \<or> str_includes T ''>''")
    case True
    with assms(2) obtain c where c: "c \<in> set T" "quote_class c"
      by (auto simp: list_ex_iff)
    then have "managed_class c" by (auto simp: quote_class_def managed_class_def)
    with c have "entityRegex (fst (replace_collect quote_class T))"
      by (rule replaced_has_entity)
    with escapeString_EscapedD(3) [OF assms(1) True] show ?thesis by simp
  next
    case False
    from assms(2) obtain c where c: "c \<in> set T" "managed_class c"
      by (auto simp: list_ex_iff quote_class_def managed_class_def)
    then have "entityRegex (fst (replace_collect managed_class T))"
      by (auto intro: replaced_has_entity)
    with escapeString_EscapedD(4) [OF assms(1)] False show ?thesis by simp
  qed
  then have "containsHtmlEntities r" by (simp add: containsHtmlEntities_def)
  then show ?thesis by (simp add: escapeString_entity_Unchanged)
qed

lemmas policy_defs = escapeString_def shouldExcludeFromEscaping_def startsWith_def
  containsHtmlEntities_def entityRegex_def doubleEscapedRegex_def numericEntityAt_def
  ESCAPES_def new_Set_def quote_class_def managed_class_def

text \<open>
  Claim C1 as stated fails: \<^verbatim>\<open>a<b\<close> holds the managed character \<^verbatim>\<open><\<close> and no entity, the
  engine returns an outcome whose text is \<^verbatim>\<open>a<b\<close> again (an angle bracket is never replaced
  next to an angle bracket), and feeding that text back yields a new outcome object, not the
  unchanged input.
\<close>
theorem escapeString_idempotent_counterexample:
  \<open>managed_class (CHR ''<'') \<and> str_includes ''a<b'' ''<'' \<and> \<not> containsHtmlEntities ''a<b'' \<and>
   escapeString False ''a<b'' = Escaped ''a<b'' [] \<and>
   escapeString False (result (escapeString False ''a<b'')) \<noteq> Unchanged (result (escapeString False ''a<b''))\<close>
  by (simp add: policy_defs)

text \<open>Claim C1, witness: the amended statement at \<^verbatim>\<open>It's\<close>.\<close>
theorem escapeString_idempotent_when_changed_witness:
  \<open>escapeString False ''It's'' = Escaped ''It&apos;s'' [CHR 0x27] \<and>
   containsHtmlEntities ''It&apos;s'' \<and> escapeString False ''It&apos;s'' = Unchanged ''It&apos;s''\<close>
proof -
  have h1: \<open>escapeString False ''It's'' = Escaped ''It&apos;s'' [CHR 0x27]\<close>
    by (simp add: policy_defs)
  have h2: \<open>list_ex quote_class ''It's'' \<or>
         (list_ex managed_class ''It's'' \<and> \<not> str_includes ''It's'' ''<'' \<and> \<not> str_includes ''It's'' ''>'')\<close>
    by (simp add: quote_class_def)
  show ?thesis
    using escapeString_idempotent_when_changed [OF h1 h2, of False] h1 by simp
qed

lemma quote_map_eq:
  "(\<lambda>c. if quote_class c then ESCAPES c else [c]) = escape_quotes_only"
  by (auto simp: fun_eq_iff quote_class_def ESCAPES_def escape_quotes_only_def)

lemma filter_concat_quotes:
  assumes "\<And>c. quote_class c \<Longrightarrow> \<not> Q c" "\<not> Q (CHR ''&'')" "\<not> Q (CHR '';'')"
     "\<not> list_ex Q ''quotaps''"
  shows "filter Q (concat (map escape_quotes_only T)) = filter Q T"
proof (induction T)
  case Nil
  then show ?case by simp
next
  case (Cons c T)
  have "filter Q (escape_quotes_only c) = filter Q [c]"
    using assms by (auto simp: escape_quotes_only_def quote_class_def)
  with Cons show ?case by simp
qed

lemma no_quote_left: "\<not> list_ex quote_class (concat (map escape_quotes_only T))"
  by (induction T) (auto simp: escape_quotes_only_def quote_class_def)

lemma prefix_word_quotes:
  assumes "CHR ''&'' \<notin> set w"
  shows "prefix w (concat (map escape_quotes_only T)) \<Longrightarrow> \<not> list_ex quote_class w \<Longrightarrow> prefix w T"
  using assms
proof (induction w arbitrary: T)
  case Nil
  then show ?case by simp
next
  case (Cons x w)
  show ?case
  proof (cases T)
    case Nil
    with Cons.prems show ?thesis by simp
  next
    case (Cons c T')
    show ?thesis
    proof (cases "quote_class c")
      case True
      then have "hd (escape_quotes_only c @ concat (map escape_quotes_only T')) = CHR ''&''"
        by (auto simp: quote_class_def escape_quotes_only_def)
      moreover have "x \<noteq> CHR ''&''" using Cons.prems(3) by auto
      ultimately show ?thesis using Cons.prems(1) True
        by (auto simp: Cons quote_class_def escape_quotes_only_def)
    next
      case False
      then have e: "escape_quotes_only c = [c]"
        by (auto simp: quote_class_def escape_quotes_only_def)
      with Cons.prems(1) have "x = c" "prefix w (concat (map escape_quotes_only T'))"
        by (auto simp: Cons)
      moreover have "prefix w T'"
        using Cons.IH [of T'] calculation(2) Cons.prems(2,3) by auto
      ultimately show ?thesis by (simp add: Cons)
    qed
  qed
qed

lemma prefix_entity_quotes:
  assumes "t \<in> {''&amp;'', ''&lt;'', ''&gt;''}"
    and "prefix t (concat (map escape_quotes_only T))"
  shows "prefix t T"
proof (cases T)
  case Nil
  with assms show ?thesis by auto
next
  case (Cons c T')
  obtain w where t: "t = CHR ''&'' # w" "CHR ''&'' \<notin> set w" "\<not> list_ex quote_class w"
    using assms(1) by (auto simp: quote_class_def)
  show ?thesis
  proof (cases "quote_class c")
    case True
    with assms show ?thesis
      by (auto simp: Cons quote_class_def escape_quotes_only_def)
  next
    case False
    then have e: "escape_quotes_only c = [c]"
      by (auto simp: quote_class_def escape_quotes_only_def)
    with assms(2) have "c = CHR ''&''" "prefix w (concat (map escape_quotes_only T'))"
      by (auto simp: Cons t)
    moreover from this have "prefix w T'"
      using prefix_word_quotes [OF t(2)] t(3) by blast
    ultimately show ?thesis by (simp add: Cons t)
  qed
qed

lemma includes_entity_quotes:
  assumes "t \<in> {''&amp;'', ''&lt;'', ''&gt;''}"
  shows "str_includes (concat (map escape_quotes_only T)) t \<Longrightarrow> str_includes T t"
proof (induction T)
  case Nil
  then show ?case using assms by auto
next
  case (Cons c T)
  show ?case
  proof (cases "prefix t (concat (map escape_quotes_only (c # T)))")
    case True
    then have "prefix t (c # T)" using assms by (rule prefix_entity_quotes [rotated])
    then show ?thesis by simp
  next
    case False
    have "str_includes (concat (map escape_quotes_only T)) t"
    proof (cases "quote_class c")
      case True
      then consider "escape_quotes_only c = ''&quot;''" | "escape_quotes_only c = ''&apos;''"
        by (auto simp: quote_class_def escape_quotes_only_def)
      then show ?thesis
        using assms Cons.prems by cases auto
    next
      case False
      then have e: "escape_quotes_only c = [c]"
        by (auto simp: quote_class_def escape_quotes_only_def)
      with Cons.prems \<open>\<not> prefix t (concat (map escape_quotes_only (c # T)))\<close> show ?thesis by simp
    qed
    with Cons.IH show ?thesis by simp
  qed
qed

lemma entity_matches_replace:
  "entity_matches (concat (map (\<lambda>c. if managed_class c then ESCAPES c else [c]) T)) =
     map ESCAPES (filter managed_class T)"
proof (induction T)
  case Nil
  then show ?case by simp
next
  case (Cons c T)
  show ?case
  proof (cases "managed_class c")
    case True
    then consider "c = CHR 0x22" | "c = CHR 0x27" | "c = CHR ''&''" | "c = CHR ''<''" | "c = CHR ''>''"
      by (auto simp: managed_class_def)
    then show ?thesis
      using Cons.IH by cases (simp_all add: managed_class_def ESCAPES_def entity_tokens_def)
  next
    case False
    then have "c \<noteq> CHR ''&''" by (auto simp: managed_class_def)
    then have "find (\<lambda>t. prefix t (c # s)) entity_tokens = None" for s
      by (simp add: entity_tokens_def)
    with False Cons.IH show ?thesis by simp
  qed
qed

lemma managed_map_no_angle:
  assumes "CHR ''<'' \<notin> set T" "CHR ''>'' \<notin> set T"
  shows "map (\<lambda>c. if managed_class c then ESCAPES c else [c]) T = map escape_managed T"
  using assms by (induction T) (auto simp: managed_class_def ESCAPES_def escape_managed_def)

text \<open>
  Claim C3. Let \<open>T\<close> hold no angle bracket and let the engine return an outcome \<open>(r, cs)\<close>.
  Then \<open>r\<close> is \<open>T\<close> with every quote, apostrophe and ampersand replaced by its entity; the
  entities found in \<open>r\<close> are, in order and hence as a multiset, the entities of the managed
  characters of \<open>T\<close>; \<open>cs\<close> lists the managed characters of \<open>T\<close> without duplicates. The
  literal \<^verbatim>\<open>It's "fine"\<close> becomes \<^verbatim>\<open>It&apos;s &quot;fine&quot;\<close> with the changed
  characters apostrophe and quote, once each.
\<close>
theorem escapeString_character_fidelity:
  assumes "\<not> str_includes T ''<''" and "\<not> str_includes T ''>''"
    and "escapeString strictMode T = Escaped r cs"
  shows \<open>r = concat (map escape_managed T) \<and>
         entity_matches r = map ESCAPES (filter managed_class T) \<and>
         mset (entity_matches r) = image_mset ESCAPES (filter_mset managed_class (mset T)) \<and>
         distinct cs \<and> set cs = {c \<in> set T. managed_class c} \<and>
         escapeString False ''It's "fine"'' =
           Escaped ''It&apos;s &quot;fine&quot;'' [CHR 0x27, CHR ''"'']\<close>
proof -
  from assms have na: "CHR ''<'' \<notin> set T" "CHR ''>'' \<notin> set T"
    by (simp_all add: str_includes_char)
  from escapeString_EscapedD(4) [OF assms(3) assms(1) assms(2)]
  have r: "r = concat (map (\<lambda>c. if managed_class c then ESCAPES c else [c]) T)"
    and cs: "cs = new_Set (filter managed_class T)"
    by (simp_all add: fst_replace_collect snd_replace_collect)
  have 1: "r = concat (map escape_managed T)"
    using r managed_map_no_angle [OF na] by simp
  have 2: "entity_matches r = map ESCAPES (filter managed_class T)"
    unfolding r by (rule entity_matches_replace)
  have 3: "mset (entity_matches r) = image_mset ESCAPES (filter_mset managed_class (mset T))"
    unfolding 2 by simp
  have 4: "distinct cs" "set cs = {c \<in> set T. managed_class c}"
    unfolding cs by (auto simp: distinct_new_Set set_new_Set)
  have 5: \<open>escapeString False ''It's "fine"'' =
           Escaped ''It&apos;s &quot;fine&quot;'' [CHR 0x27, CHR ''"'']\<close>
    by (simp add: policy_defs)
  from 1 2 3 4 5 show ?thesis by blast
qed

lemma count_char_filter_eq:
  "filter Q r = filter Q T \<Longrightarrow> Q c \<Longrightarrow> count_char c r = count_char c T"
proof -
  assume a: "filter Q r = filter Q T" "Q c"
  have "filter (\<lambda>d. d = c) (filter Q r) = filter (\<lambda>d. d = c) (filter Q T)" using a by simp
  moreover have "(\<lambda>x. Q x \<and> x = c) = (\<lambda>d. d = c)" using a(2) by auto
  ultimately show ?thesis by (simp add: count_char_def)
qed

text \<open>
  Claim C2. Let \<open>T\<close> hold an angle bracket and let the engine return an outcome \<open>(r, cs)\<close>.
  Then \<open>r\<close> is \<open>T\<close> with every quote and apostrophe replaced by its entity and every other
  character, the angle brackets and ampersands of \<open>T\<close> among them, left in place: the angle
  brackets of \<open>r\<close> are those of \<open>T\<close> in the same order and number, no raw quote or apostrophe
  is left, no angle bracket or ampersand was turned into an entity, and \<open>cs\<close> holds exactly
  the quote characters of \<open>T\<close>.
\<close>
theorem escapeString_markup_protection:
  assumes "str_includes T ''<'' \<or> str_includes T ''>''"
    and "escapeString strictMode T = Escaped r cs"
  shows \<open>r = concat (map escape_quotes_only T) \<and>
         filter (\<lambda>c. c = CHR ''<'' \<or> c = CHR ''>'') r = filter (\<lambda>c. c = CHR ''<'' \<or> c = CHR ''>'') T \<and>
         count_char (CHR ''<'') r = count_char (CHR ''<'') T \<and>
         count_char (CHR ''>'') r = count_char (CHR ''>'') T \<and>
         \<not> list_ex quote_class r \<and>
         \<not> str_includes r ''&amp;'' \<and> \<not> str_includes r ''&lt;'' \<and> \<not> str_includes r ''&gt;'' \<and>
         set cs = {c \<in> set T. quote_class c}\<close>
proof -
  from escapeString_EscapedD(3) [OF assms(2) assms(1)]
  have r: "r = concat (map escape_quotes_only T)"
    and cs: "cs = new_Set (filter quote_class T)"
    by (simp_all add: fst_replace_collect snd_replace_collect quote_map_eq)
  have 2: "filter (\<lambda>c. c = CHR ''<'' \<or> c = CHR ''>'') r = filter (\<lambda>c. c = CHR ''<'' \<or> c = CHR ''>'') T"
    unfolding r by (rule filter_concat_quotes) (auto simp: quote_class_def)
  have 3: "count_char (CHR ''<'') r = count_char (CHR ''<'') T"
    "count_char (CHR ''>'') r = count_char (CHR ''>'') T"
    using 2 by (auto intro: count_char_filter_eq)
  have 4: "\<not> list_ex quote_class r" unfolding r by (rule no_quote_left)
  from escapeString_EscapedD(2) [OF assms(2)]
  have "\<not> entityRegex T" by (simp add: containsHtmlEntities_def)
  then have "\<not> str_includes T ''&amp;''" "\<not> str_includes T ''&lt;''" "\<not> str_includes T ''&gt;''"
    by (simp_all add: entityRegex_def)
  then have 5: "\<not> str_includes r ''&amp;''" "\<not> str_includes r ''&lt;''" "\<not> str_includes r ''&gt;''"
    unfolding r using includes_entity_quotes by blast+
  have 6: "set cs = {c \<in> set T. quote_class c}"
    unfolding cs by (auto simp: set_new_Set)
  from r 2 3 4 5 6 show ?thesis by blast
qed

text \<open>Claim C2, witness: the statement at \<^verbatim>\<open>Don't <b>stop</b>\<close>.\<close>
theorem escapeString_markup_protection_witness:
  \<open>(str_includes ''Don't <b>stop</b>'' ''<'' \<or> str_includes ''Don't <b>stop</b>'' ''>'') \<and>
   escapeString False ''Don't <b>stop</b>'' = Escaped ''Don&apos;t <b>stop</b>'' [CHR 0x27] \<and>
   filter (\<lambda>c. c = CHR ''<'' \<or> c = CHR ''>'') ''Don&apos;t <b>stop</b>'' = ''<><>''\<close>
proof -
  have h1: \<open>str_includes ''Don't <b>stop</b>'' ''<'' \<or> str_includes ''Don't <b>stop</b>'' ''>''\<close>
    by simp
  have h2: \<open>escapeString False ''Don't <b>stop</b>'' = Escaped ''Don&apos;t <b>stop</b>'' [CHR 0x27]\<close>
    by (simp add: policy_defs)
  from escapeString_markup_protection [OF h1 h2]
  have \<open>filter (\<lambda>c. c = CHR ''<'' \<or> c = CHR ''>'') ''Don&apos;t <b>stop</b>'' =
        filter (\<lambda>c. c = CHR ''<'' \<or> c = CHR ''>'') ''Don't <b>stop</b>''\<close>
    by blast
  with h1 h2 show ?thesis by simp
qed

text \<open>Claim C3, witness: the statement at \<^verbatim>\<open>Tom & Jerry's\<close> in strict mode.\<close>
theorem escapeString_character_fidelity_witness:
  \<open>\<not> str_includes ''Tom & Jerry's'' ''<'' \<and> \<not> str_includes ''Tom & Jerry's'' ''>'' \<and>
   escapeString True ''Tom & Jerry's'' = Escaped ''Tom &amp; Jerry&apos;s'' [CHR ''&'', CHR 0x27] \<and>
   entity_matches ''Tom &amp; Jerry&apos;s'' = [''&amp;'', ''&apos;'']\<close>
proof -
  have h1: \<open>\<not> str_includes ''Tom & Jerry's'' ''<''\<close> and h2: \<open>\<not> str_includes ''Tom & Jerry's'' ''>''\<close>
    by simp_all
  have h3: \<open>escapeString True ''Tom & Jerry's'' = Escaped ''Tom &amp; Jerry&apos;s'' [CHR ''&'', CHR 0x27]\<close>
    by (simp add: policy_defs)
  from escapeString_character_fidelity [OF h1 h2 h3]
  have \<open>entity_matches ''Tom &amp; Jerry&apos;s'' = map ESCAPES (filter managed_class ''Tom & Jerry's'')\<close>
    by blast
  with h1 h2 h3 show ?thesis by (simp add: managed_class_def ESCAPES_def)
qed

section \<open>Properties of the Idempotency Detector\<close>

text \<open>
  Claim C9. For an original text without apostrophe and without double quote the window check
  returns \<^verbatim>\<open>false\<close> before the file is even read, whatever the file holds (or whether it
  can be read) and whatever the line: such a candidate is never reported as matched, at any
  confidence.
\<close>
theorem window_check_without_quotes:
  assumes "\<not> str_includes originalString [apostrophe]"
    and "\<not> str_includes originalString [dquote]"
  shows "isAlreadyEscapedInLineWindow file lineNumber originalString = ReturnedFalse \<and>
         \<not> matched (isAlreadyEscapedInLineWindow file lineNumber originalString)"
  using assms by (simp add: isAlreadyEscapedInLineWindow_def)

text \<open>Claim C9, witness: a text whose managed characters are \<^verbatim>\<open>< & >\<close>, against a file
  that holds its fully escaped form.\<close>
theorem window_check_without_quotes_witness:
  \<open>\<not> str_includes ''a < b && c > d'' [apostrophe] \<and> \<not> str_includes ''a < b && c > d'' [dquote] \<and>
   isAlreadyEscapedInLineWindow (Some ''x = "a &lt; b &amp;&amp; c &gt; d"'') 1 ''a < b && c > d'' = ReturnedFalse\<close>
proof -
  have h1: \<open>\<not> str_includes ''a < b && c > d'' [apostrophe]\<close>
    and h2: \<open>\<not> str_includes ''a < b && c > d'' [dquote]\<close>
    by (simp_all add: apostrophe_def dquote_def)
  from window_check_without_quotes [OF h1 h2] h1 h2 show ?thesis by blast
qed

section \<open>Properties of the Safe Text Patcher\<close>

lemma indexOf_aux_Some_nth:
  "indexOf_aux s [q] i = Some p \<Longrightarrow> i \<le> p \<and> p - i < length s \<and> s ! (p - i) = q \<and> q \<notin> set (take (p - i) s)"
proof (induction s arbitrary: i)
  case Nil
  then show ?case by simp
next
  case (Cons c s)
  show ?case
  proof (cases "c = q")
    case True
    with Cons.prems show ?thesis by simp
  next
    case False
    with Cons.prems have a: "indexOf_aux s [q] (Suc i) = Some p" by simp
    from Cons.IH [OF a] have b: "Suc i \<le> p" "p - Suc i < length s" "s ! (p - Suc i) = q"
      "q \<notin> set (take (p - Suc i) s)" by simp_all
    from b(1) have e: "p - i = Suc (p - Suc i)" by simp
    show ?thesis using b False unfolding e by simp
  qed
qed

lemma indexOf_char_Some:
  assumes "indexOf L [q] from = Some p"
  shows "from \<le> p" "p < length L" "L ! p = q" "q \<notin> set (take (p - from) (drop from L))"
proof -
  have fl: "from \<le> length L"
    using assms by (cases "from \<le> length L") (simp_all add: indexOf_def)
  then have m: "min from (length L) = from" by simp
  from assms have a: "indexOf_aux (drop from L) [q] from = Some p"
    by (simp add: indexOf_def m)
  from indexOf_aux_Some_nth [OF a]
  have b: "from \<le> p" "p - from < length L - from" "drop from L ! (p - from) = q"
    "q \<notin> set (take (p - from) (drop from L))" by simp_all
  show "from \<le> p" by fact
  show "p < length L" using b(1,2) by simp
  show "L ! p = q" using b(1,2,3) fl by simp
  show "q \<notin> set (take (p - from) (drop from L))" by fact
qed


lemma substring_0: "b \<le> length s \<Longrightarrow> substring s 0 b = take b s"
  by (simp add: substring_def Let_def min_def max_def)

lemma get_line_0:
  "get_line fl line 0 = Some L \<longleftrightarrow> (1 \<le> line \<and> line \<le> length fl \<and> L = fl ! (line - 1))"
  by (auto simp: get_line_def line_index_def split: if_splits)

lemma applyLiteral_Patched:
  assumes "applyLiteral fl fx = Patched ls"
  shows "\<exists>L closing.
           get_line fl (start_line fx) 0 = Some L \<and>
           start_column fx < length L \<and>
           indexOf L [L ! start_column fx] (start_column fx + 1) = Some closing \<and>
           start_column fx + 1 < closing \<and> closing < length L \<and>
           L ! closing = L ! start_column fx \<and>
           substring L (start_column fx + 1) closing = original fx \<and>
           ls = fl[start_line fx - 1 :=
                  take (start_column fx + 1) L @ escaped fx @ drop closing L]"
proof -
  from assms obtain L where L: "get_line fl (start_line fx) 0 = Some L"
    by (auto simp: applyLiteral_def split: option.splits)
  define q where "q = (if start_column fx < length L then [L ! start_column fx] else ''undefined'')"
  from assms L obtain closing where
    cl: "indexOf L q (start_column fx + 1) = Some closing"
    and gt: "start_column fx + 1 < closing"
    and eq: "substring L (start_column fx + 1) closing = original fx"
    and ls: "ls = fl[start_line fx - 1 :=
               substring L 0 (start_column fx + 1) @ escaped fx @ substring_from L closing]"
    by (auto simp: applyLiteral_def Let_def q_def split: option.splits if_splits)
  have col: "start_column fx < length L"
  proof (rule ccontr)
    assume "\<not> start_column fx < length L"
    then have "drop (start_column fx + 1) L = []" by simp
    with cl \<open>\<not> start_column fx < length L\<close> show False
      by (simp add: indexOf_def q_def)
  qed
  then have q: "q = [L ! start_column fx]" by (simp add: q_def)
  from indexOf_char_Some [OF cl [unfolded q]]
  have b: "closing < length L" "L ! closing = L ! start_column fx" by simp_all
  have "substring L 0 (start_column fx + 1) = take (start_column fx + 1) L"
    using col by (simp add: substring_0)
  with ls have "ls = fl[start_line fx - 1 :=
      take (start_column fx + 1) L @ escaped fx @ drop closing L]"
    by (simp add: substring_from_def)
  with L col cl q gt b eq show ?thesis by auto
qed

lemma applyLiteral_mismatch:
  assumes "get_line fl (start_line fx) 0 = Some L"
    and "start_column fx < length L"
    and "indexOf L [L ! start_column fx] (start_column fx + 1) = Some closing"
    and "substring L (start_column fx + 1) closing \<noteq> original fx"
  shows "applyLiteral fl fx = Unpatched"
  using assms by (simp add: applyLiteral_def Let_def)

lemma apply_fix_literal_cases:
  assumes "\<not> isJsx fx"
  shows "apply_fix fl fx = Threw \<or>
         apply_fix fl fx = Applied fl False \<or>
         (\<exists>ls. applyLiteral fl fx = Patched ls \<and> apply_fix fl fx = Applied ls True)"
  using assms
  by (cases "applyLiteral fl fx")
     (auto simp: apply_fix_def applyLiteral_def Let_def split: option.splits if_splits)

text \<open>
  Claim C10. When an approved fix of a literal candidate is applied and the apply step returns
  normally, the line array keeps its length and every line other than the one at the recorded
  start line is unchanged. If a line was replaced, the closing quote was found after a
  non-empty content, that content equals the original text, and the new line is the old one
  up to and including the opening quote, then the escaped text, then the old line from the
  closing quote on. If nothing was replaced the array is unchanged; in particular this is so
  whenever the content between the quotes differs from the original text.
\<close>
theorem literal_patch_frame:
  assumes "\<not> isJsx fx" and "apply_fix fl fx = Applied ls c"
  shows "length ls = length fl \<and>
         (\<forall>i. i \<noteq> start_line fx - 1 \<longrightarrow> ls ! i = fl ! i) \<and>
         (if c then
            (\<exists>L closing.
               get_line fl (start_line fx) 0 = Some L \<and>
               indexOf L [L ! start_column fx] (start_column fx + 1) = Some closing \<and>
               start_column fx + 1 < closing \<and> closing < length L \<and>
               substring L (start_column fx + 1) closing = original fx \<and>
               ls ! (start_line fx - 1) =
                 take (start_column fx + 1) L @ escaped fx @ drop closing L)
          else ls = fl) \<and>
         (\<forall>L closing.
            get_line fl (start_line fx) 0 = Some L \<longrightarrow>
            start_column fx < length L \<longrightarrow>
            indexOf L [L ! start_column fx] (start_column fx + 1) = Some closing \<longrightarrow>
            substring L (start_column fx + 1) closing \<noteq> original fx \<longrightarrow>
            ls = fl \<and> \<not> c)"
proof -
  from apply_fix_literal_cases [OF assms(1), of fl] assms(2)
  consider (same) "ls = fl" "\<not> c"
    | (patched) "applyLiteral fl fx = Patched ls" "c"
    by auto
  then show ?thesis
  proof cases
    case same
    then show ?thesis by simp
  next
    case patched
    from applyLiteral_Patched [OF patched(1)] obtain L closing where
      L: "get_line fl (start_line fx) 0 = Some L"
      and col: "start_column fx < length L"
      and cl: "indexOf L [L ! start_column fx] (start_column fx + 1) = Some closing"
      and gt: "start_column fx + 1 < closing" and lt: "closing < length L"
      and eq: "substring L (start_column fx + 1) closing = original fx"
      and ls: "ls = fl[start_line fx - 1 :=
                  take (start_column fx + 1) L @ escaped fx @ drop closing L]"
      by blast
    from L have rng: "start_line fx - 1 < length fl" by (auto simp: get_line_0)
    have 1: "length ls = length fl" using ls by simp
    have 2: "\<forall>i. i \<noteq> start_line fx - 1 \<longrightarrow> ls ! i = fl ! i" using ls by simp
    have 3: "ls ! (start_line fx - 1) = take (start_column fx + 1) L @ escaped fx @ drop closing L"
      using ls rng by simp
    have 4: "\<forall>L' closing'.
            get_line fl (start_line fx) 0 = Some L' \<longrightarrow>
            start_column fx < length L' \<longrightarrow>
            indexOf L' [L' ! start_column fx] (start_column fx + 1) = Some closing' \<longrightarrow>
            substring L' (start_column fx + 1) closing' \<noteq> original fx \<longrightarrow>
            ls = fl \<and> \<not> c"
      using L cl eq by auto
    from 1 2 3 4 L cl gt lt eq patched(2) show ?thesis by auto
  qed
qed

text \<open>Claim C10, witness: one literal on one line, patched.\<close>
theorem literal_patch_frame_witness:
  \<open>\<not> isJsx (literal_fix ''c'd'' ''c&apos;d'' 1 9) \<and>
   apply_fix [''f("a'b", "c'd")''] (literal_fix ''c'd'' ''c&apos;d'' 1 9) =
     Applied [''f("a'b", "c&apos;d")''] True \<and>
   length [''f("a'b", "c&apos;d")''] = length [''f("a'b", "c'd")'']\<close>
proof -
  have h1: \<open>\<not> isJsx (literal_fix ''c'd'' ''c&apos;d'' 1 9)\<close>
    by (simp add: literal_fix_def)
  have h2: \<open>apply_fix [''f("a'b", "c'd")''] (literal_fix ''c'd'' ''c&apos;d'' 1 9) =
     Applied [''f("a'b", "c&apos;d")''] True\<close>
    by code_simp
  from literal_patch_frame [OF h1 h2] h1 h2 show ?thesis by blast
qed

section \<open>Properties of the ordering and of patching in that order\<close>

























lemma add_note_simps [simp]:
  "fileLines (add_note n st) = fileLines st"
  "changed (add_note n st) = changed st"
  "rejectedFixes (add_note n st) = rejectedFixes st"
  "modTime (add_note n st) = modTime st"
  "disk (add_note n st) = disk st"
  "trace (add_note n st) = trace st @ [n]"
  by (simp_all add: add_note_def)













section \<open>Properties of the review loop and of the save\<close>

text \<open>
  Claim C5, the code at a failing input. Three literals are offered from the last line up.
  The first is approved and patched in memory. While the second prompt waits, an editor
  rewrites the file; the check after the key press sees the new time and warns, but only the
  prompt loop of that fix is left: the third fix is still offered (and warned about), and the
  final save then writes the lines read at the start, with the first patch, over the
  editor's text.
\<close>
theorem external_modification_not_aborted:
  \<open>fst (review_and_save quiet_env ''a.js'' three_literals three_literals_opened rewritten_meanwhile) =
     LoopDone \<and>
   trace (snd (review_and_save quiet_env ''a.js'' three_literals three_literals_opened
                 rewritten_meanwhile)) =
     [Prompted ''a.js:3:10:Can't'', Prompted ''a.js:2:10:Don't'', WarnModified,
      Prompted ''a.js:1:10:It's'', WarnModified, LogSaved 60] \<and>
   disk (snd (review_and_save quiet_env ''a.js'' three_literals three_literals_opened
                rewritten_meanwhile)) =
     Some \<lparr>content = ''const a = "It's";'' @ newline # ''const b = "Don't";'' @ newline #
                       ''const c = "Can&apos;t";'',
           mtimeMs = 2000\<rparr>\<close>
  by code_simp

text \<open>
  Claim C6, the code at a failing input. Another process rewrites the file between the write
  and the read-back. The final save of \<^verbatim>\<open>processFile\<close> logs the length of what it read
  and reports success although the text on disk differs from the intended text;
  \<^verbatim>\<open>writeFileWithVerification\<close> rejects the same write.
\<close>
theorem final_save_without_comparison:
  \<open>trace (final_save watcher_env one_patched) = [LogSaved 20] \<and>
   map_option content (disk (final_save watcher_env one_patched)) = Some ''const c="Can&apos;t"'' \<and>
   join_lines (fileLines one_patched) = ''const c = "Can&apos;t";'' \<and>
   fst (writeFileWithVerification watcher_env (join_lines (fileLines one_patched))) =
     Inl VerificationFailed\<close>
  by code_simp

text \<open>What does hold of the final save: a text with a doubly escaped angle bracket is never
  written, and \<^verbatim>\<open>writeFileWithVerification\<close> succeeds only when the text read back is the
  text written.\<close>

lemma final_save_refuses_corrupt:
  assumes "changed st"
    and "str_includes (join_lines (fileLines st)) ''&amp;lt;'' \<or>
         str_includes (join_lines (fileLines st)) ''&amp;gt;''"
  shows "final_save env st = add_note WarnCorrupt st" "disk (final_save env st) = disk st"
  using assms by (simp_all add: final_save_def Let_def)

lemma final_save_unchanged:
  "\<not> changed st \<Longrightarrow> final_save env st = st"
  by (simp add: final_save_def)

lemma final_save_writes:
  assumes "changed st"
    and "\<not> str_includes (join_lines (fileLines st)) ''&amp;lt;''"
    and "\<not> str_includes (join_lines (fileLines st)) ''&amp;gt;''"
    and "write_ok env" and "after_write env = Quiet"
  shows "disk (final_save env st) =
           Some \<lparr>content = join_lines (fileLines st), mtimeMs = clock env\<rparr>"
  using assms
  by (simp add: final_save_def Let_def writeFileSync_def readFileSync_def statSync_def)

lemma writeFileWithVerification_ok:
  "writeFileWithVerification env text = (Inr n, d) \<Longrightarrow>
   \<exists>f. d = Some (Some f) \<and> content f = text \<and> n = length text"
  by (auto simp: writeFileWithVerification_def Let_def readFileSync_def writeFileSync_def
      split: option.splits if_splits)

section \<open>Properties of Rejection Memory\<close>

lemma same_prompts:
  assumes "filter is_prompt xs = filter is_prompt ys"
  shows "Prompted k \<in> set xs \<longleftrightarrow> Prompted k \<in> set ys"
proof -
  have "Prompted k \<in> set xs \<longleftrightarrow> Prompted k \<in> set (filter is_prompt xs)" by simp
  also have "\<dots> \<longleftrightarrow> Prompted k \<in> set (filter is_prompt ys)" by (simp only: assms)
  also have "\<dots> \<longleftrightarrow> Prompted k \<in> set ys" by simp
  finally show ?thesis .
qed

lemma quit_save_keeps:
  "rejectedFixes (quit_save env st) = rejectedFixes st"
  "filter is_prompt (trace (quit_save env st)) = filter is_prompt (trace st)"
  by (auto simp: quit_save_def split: option.splits)

lemma final_save_keeps:
  "rejectedFixes (final_save env st) = rejectedFixes st"
  "filter is_prompt (trace (final_save env st)) = filter is_prompt (trace st)"
  by (auto simp: final_save_def Let_def split: option.splits)

lemma prompt_fix_keeps:
  "prompt_fix env filePath fx st evs = (r, st', evs') \<Longrightarrow>
   dom (rejectedFixes st) \<subseteq> dom (rejectedFixes st') \<and>
   filter is_prompt (trace st') = filter is_prompt (trace st)"
proof (induction evs arbitrary: st)
  case Nil
  then show ?case by auto
next
  case (Cons ev evs)
  let ?st1 = "st\<lparr>disk := apply_external (external ev) (disk st)\<rparr>"
  show ?case
  proof (cases "key ev")
    case KeyC
    with Cons.prems have "prompt_fix env filePath fx ?st1 evs = (r, st', evs')" by simp
    from Cons.IH [OF this] show ?thesis by simp
  next
    case KeyRejected
    with Cons.prems show ?thesis by auto
  next
    case KeyY
    with Cons.prems show ?thesis
      by (auto simp: Let_def split: if_splits apply_result.splits)
  next
    case KeyN
    with Cons.prems show ?thesis
      by (auto simp: Let_def split: if_splits)
  next
    case KeyQ
    with Cons.prems show ?thesis
      by (auto simp: Let_def quit_save_keeps split: if_splits)
  qed
qed

lemma review_keeps:
  "dom (rejectedFixes st) \<subseteq> dom (rejectedFixes (snd (review env filePath fxs st evs)))"
proof (induction fxs arbitrary: st evs)
  case Nil
  then show ?case by simp
next
  case (Cons fx fxs)
  let ?k = "createFixKey filePath (start_line fx) (start_column fx) (original fx)"
  show ?case
  proof (cases "entry_type fx = Information")
    case True
    show ?thesis
    proof (cases "readFileSync (disk st)")
      case None
      with True show ?thesis by simp
    next
      case (Some a)
      show ?thesis
      proof (cases evs)
        case Nil
        with True Some show ?thesis by simp
      next
        case (Cons ev evs')
        let ?st = "add_note (Informed (message fx)) (st\<lparr>disk := apply_external (external ev) (disk st)\<rparr>)"
        from Cons.IH [of ?st evs'] True Some Cons show ?thesis by simp
      qed
    qed
  next
    case False
    show ?thesis
    proof (cases "rejectedFixes st ?k \<noteq> None")
      case True
      from Cons.IH [of "add_note (SkippedRejected ?k) st" evs] True False show ?thesis
        by (simp add: Let_def)
    next
      case no: False
      obtain r st' evs' where p: "prompt_fix env filePath fx (add_note (Prompted ?k) st) evs = (r, st', evs')"
        by (cases "prompt_fix env filePath fx (add_note (Prompted ?k) st) evs") auto
      from prompt_fix_keeps [OF p] have d: "dom (rejectedFixes st) \<subseteq> dom (rejectedFixes st')" by simp
      show ?thesis
      proof (cases r)
        case None
        from Cons.IH [of st' evs'] d have "dom (rejectedFixes st) \<subseteq>
            dom (rejectedFixes (snd (review env filePath fxs st' evs')))" by blast
        with None p no False show ?thesis by (simp add: Let_def del: prompt_fix.simps)
      next
        case (Some e)
        with p no False d show ?thesis by (simp add: Let_def del: prompt_fix.simps)
      qed
    qed
  qed
qed

lemma review_no_prompt:
  assumes "rejectedFixes st k \<noteq> None" and "Prompted k \<notin> set (trace st)"
  shows "Prompted k \<notin> set (trace (snd (review env filePath fxs st evs)))"
  using assms
proof (induction fxs arbitrary: st evs)
  case Nil
  then show ?case by simp
next
  case (Cons fx fxs)
  let ?k = "createFixKey filePath (start_line fx) (start_column fx) (original fx)"
  show ?case
  proof (cases "entry_type fx = Information")
    case True
    show ?thesis
    proof (cases "readFileSync (disk st)")
      case None
      with True Cons.prems show ?thesis by simp
    next
      case (Some a)
      show ?thesis
      proof (cases evs)
        case Nil
        with True Some Cons.prems show ?thesis by simp
      next
        case (Cons ev evs')
        let ?st = "add_note (Informed (message fx)) (st\<lparr>disk := apply_external (external ev) (disk st)\<rparr>)"
        have "Prompted k \<notin> set (trace (snd (review env filePath fxs ?st evs')))"
          using Cons.prems by (intro Cons.IH) simp_all
        with True Some Cons show ?thesis by simp
      qed
    qed
  next
    case False
    show ?thesis
    proof (cases "rejectedFixes st ?k \<noteq> None")
      case True
      have "Prompted k \<notin> set (trace (snd (review env filePath fxs (add_note (SkippedRejected ?k) st) evs)))"
        using Cons.prems by (intro Cons.IH) simp_all
      with True False show ?thesis by (simp add: Let_def)
    next
      case no: False
      with Cons.prems(1) have neq: "?k \<noteq> k" by auto
      obtain r st' evs' where p: "prompt_fix env filePath fx (add_note (Prompted ?k) st) evs = (r, st', evs')"
        by (cases "prompt_fix env filePath fx (add_note (Prompted ?k) st) evs") auto
      from prompt_fix_keeps [OF p]
      have d: "dom (rejectedFixes st) \<subseteq> dom (rejectedFixes st')"
        and t: "filter is_prompt (trace st') = filter is_prompt (trace st @ [Prompted ?k])"
        by simp_all
      from same_prompts [OF t, of k] neq Cons.prems(2)
      have nt: "Prompted k \<notin> set (trace st')" by simp
      from d Cons.prems(1) have rk: "rejectedFixes st' k \<noteq> None" by auto
      show ?thesis
      proof (cases r)
        case None
        from Cons.IH [OF rk nt] None p no False show ?thesis
          by (simp add: Let_def del: prompt_fix.simps)
      next
        case (Some e)
        with p no False nt show ?thesis by (simp add: Let_def del: prompt_fix.simps)
      qed
    qed
  qed
qed

lemma review_and_save_keeps:
  assumes "rejectedFixes st k \<noteq> None" and "Prompted k \<notin> set (trace st)"
  shows "Prompted k \<notin> set (trace (snd (review_and_save env filePath fs st evs)))"
    and "rejectedFixes (snd (review_and_save env filePath fs st evs)) k \<noteq> None"
proof -
  obtain e st' where r: "review env filePath (sort_fixes fs) st evs = (e, st')"
    by (cases "review env filePath (sort_fixes fs) st evs") auto
  from review_no_prompt [OF assms, of env filePath "sort_fixes fs" evs] r
  have np: "Prompted k \<notin> set (trace st')" by simp
  from review_keeps [of st env filePath "sort_fixes fs" evs] r assms(1)
  have rk: "rejectedFixes st' k \<noteq> None" by auto
  have pf: "Prompted k \<notin> set (trace (final_save env st'))"
    using same_prompts [OF final_save_keeps(2) [of env st'], of k] np by simp
  show "Prompted k \<notin> set (trace (snd (review_and_save env filePath fs st evs)))"
    using assms(2) r np pf by (cases e) (simp_all add: review_and_save_def)
  show "rejectedFixes (snd (review_and_save env filePath fs st evs)) k \<noteq> None"
    using assms(1) r rk by (cases e) (simp_all add: review_and_save_def final_save_keeps)
qed

lemma visit_tail_cases:
  "visit_tail strictMode env filePath fileContent file nd orig st = st \<or>
   (\<exists>e. visit_tail strictMode env filePath fileContent file nd orig st =
      st\<lparr>stringFixes := stringFixes st @ [e]\<rparr>) \<or>
   (\<exists>reason. isAutoSkipPattern strictMode orig filePath (node_line nd) (node_column nd) = Some reason \<and>
      visit_tail strictMode env filePath fileContent file nd orig st =
      st\<lparr>scan_rejected := (scan_rejected st)
           (createFixKey filePath (node_line nd) (node_column nd) orig
              \<mapsto> autoskip_record env filePath nd orig reason)\<rparr>)"
proof (cases "isAlreadyEscapedInLineWindow file (node_line nd) orig")
  case (Matched c reason)
  then show ?thesis by (cases c) (auto simp: visit_tail_def)
next
  case ReturnedFalse
  show ?thesis
  proof (cases "escapeString strictMode orig")
    case (Unchanged x)
    with ReturnedFalse show ?thesis by (auto simp: visit_tail_def)
  next
    case (Escaped res chars)
    show ?thesis
    proof (cases "isAutoSkipPattern strictMode orig filePath (node_line nd) (node_column nd)")
      case None
      with ReturnedFalse Escaped show ?thesis by (auto simp: visit_tail_def)
    next
      case (Some reason)
      with ReturnedFalse Escaped show ?thesis by (auto simp: visit_tail_def)
    qed
  qed
next
  case NotMatched
  show ?thesis
  proof (cases "escapeString strictMode orig")
    case (Unchanged x)
    with NotMatched show ?thesis by (auto simp: visit_tail_def)
  next
    case (Escaped res chars)
    show ?thesis
    proof (cases "isAutoSkipPattern strictMode orig filePath (node_line nd) (node_column nd)")
      case None
      with NotMatched Escaped show ?thesis by (auto simp: visit_tail_def)
    next
      case (Some reason)
      with NotMatched Escaped show ?thesis by (auto simp: visit_tail_def)
    qed
  qed
next
  case NotMatchedError
  show ?thesis
  proof (cases "escapeString strictMode orig")
    case (Unchanged x)
    with NotMatchedError show ?thesis by (auto simp: visit_tail_def)
  next
    case (Escaped res chars)
    show ?thesis
    proof (cases "isAutoSkipPattern strictMode orig filePath (node_line nd) (node_column nd)")
      case None
      with NotMatchedError Escaped show ?thesis by (auto simp: visit_tail_def)
    next
      case (Some reason)
      with NotMatchedError Escaped show ?thesis by (auto simp: visit_tail_def)
    qed
  qed
qed

lemma visit_tail_keeps:
  "dom (scan_rejected st) \<subseteq>
   dom (scan_rejected (visit_tail strictMode env filePath fileContent file nd orig st))"
  using visit_tail_cases [of strictMode env filePath fileContent "file" nd orig st] by auto

lemma visit_keeps:
  "dom (scan_rejected st) \<subseteq> dom (scan_rejected (visit strictMode env filePath fileContent file st nd))"
proof (cases "kind nd")
  case StringLiteral
  then show ?thesis using visit_tail_keeps by (simp add: visit_def)
next
  case JSXText
  then show ?thesis using visit_tail_keeps by (simp add: visit_def Let_def)
qed


lemma traverse_keeps:
  "dom rejected \<subseteq> dom (scan_rejected (traverse strictMode env filePath fileContent file nodes rejected))"
proof -
  have "dom (scan_rejected st) \<subseteq>
        dom (scan_rejected (foldl (visit strictMode env filePath fileContent file) st nodes))" for st
  proof (induction nodes arbitrary: st)
    case Nil
    show ?case by simp
  next
    case (Cons nd nodes)
    from visit_keeps [of st strictMode env filePath fileContent "file" nd]
      Cons [of "visit strictMode env filePath fileContent file st nd"]
    show ?case by auto
  qed
  from this [of "\<lparr>stringFixes = [], scan_rejected = rejected\<rparr>"] show ?thesis
    by (simp add: traverse_def)
qed

lemma processFile_keeps:
  assumes "rejected k \<noteq> None"
  shows "Prompted k \<notin> set (trace (snd (processFile strictMode env filePath parse rejected d evs)))"
    and "rejectedFixes (snd (processFile strictMode env filePath parse rejected d evs)) k \<noteq> None"
proof -
  let ?st0 = "\<lparr>fileLines = [], changed = False, rejectedFixes = rejected,
                 modTime = statSync d, disk = d, trace = []\<rparr>"
  have both: "Prompted k \<notin> set (trace (snd (processFile strictMode env filePath parse rejected d evs))) \<and>
    rejectedFixes (snd (processFile strictMode env filePath parse rejected d evs)) k \<noteq> None"
  proof (cases d)
    case None
    with assms show ?thesis by (simp add: processFile_def)
  next
    case (Some f)
    show ?thesis
    proof (cases "length (content f) > MAX_FILE_SIZE")
      case True
      with Some assms show ?thesis by (simp add: processFile_def)
    next
      case small: False
      show ?thesis
      proof (cases "parse (content f)")
        case None
        with Some small assms show ?thesis by (simp add: processFile_def)
      next
        case (Some nodes)
        let ?scan = "traverse strictMode env filePath (content f) (Some (content f)) nodes rejected"
        let ?st = "?st0\<lparr>fileLines := split_lines (content f), rejectedFixes := scan_rejected ?scan\<rparr>"
        from traverse_keeps [of rejected strictMode env filePath "content f" "Some (content f)" nodes] assms
        have a: "rejectedFixes ?st k \<noteq> None" by auto
        have b: "Prompted k \<notin> set (trace ?st)" by simp
        from review_and_save_keeps [OF a b, of env filePath "stringFixes ?scan" evs]
        show ?thesis using \<open>d = Some f\<close> small Some by (simp add: processFile_def Let_def)
      qed
    qed
  qed
  from both show "Prompted k \<notin> set (trace (snd (processFile strictMode env filePath parse rejected d evs)))"
    and "rejectedFixes (snd (processFile strictMode env filePath parse rejected d evs)) k \<noteq> None"
    by simp_all
qed

lemma decline_records:
  assumes "key ev = KeyN"
    and "\<not> fst (checkFileModification (modTime st) (apply_external (external ev) (disk st)))"
  shows "rejectedFixes (fst (snd (prompt_fix env filePath fx st (ev # evs))))
           (createFixKey filePath (start_line fx) (start_column fx) (original fx)) =
         Some (reject_record env filePath fx)"
  using assms by (simp add: Let_def)

lemma autoskip_records:
  assumes "\<not> matched (isAlreadyEscapedInLineWindow file (node_line nd) orig)"
    and "\<not> checkRawFileContent file (node_line nd) (node_column nd) (node_value nd)"
    and "\<not> (kind nd = JSXText \<and> containsHtmlEntities (node_value nd))"
    and "isSafeToEscapeInJsx orig (line_or_empty (split_lines fileContent) (node_line nd))"
    and "escapeString strictMode orig = Escaped res chars" and "res \<noteq> orig"
    and "\<not> isAlreadyFixed fileContent (node_line nd) (node_column nd) orig res"
    and "isAutoSkipPattern strictMode orig filePath (node_line nd) (node_column nd) = Some reason"
  shows "visit_tail strictMode env filePath fileContent file nd orig st =
         st\<lparr>scan_rejected := (scan_rejected st)
              (createFixKey filePath (node_line nd) (node_column nd) orig
                 \<mapsto> autoskip_record env filePath nd orig reason)\<rparr>"
proof (cases "isAlreadyEscapedInLineWindow file (node_line nd) orig")
  case (Matched c r)
  with assms(1) show ?thesis by simp
next
  case ReturnedFalse
  with assms show ?thesis by (auto simp: visit_tail_def)
next
  case NotMatched
  with assms show ?thesis by (auto simp: visit_tail_def)
next
  case NotMatchedError
  with assms show ?thesis by (auto simp: visit_tail_def)
qed

lemma wards_kept_by_run:
  assumes "wards_has k wards"
  shows "Prompted k \<notin> set (trace (fst (snd (run strictMode env filePath parse wards d evs))))"
    and "wards_has k (snd (snd (run strictMode env filePath parse wards d evs)))"
proof -
  from assms obtain m where m: "wards = Stored m" "m k \<noteq> None"
    by (cases wards) (simp_all add: wards_has_def)
  then have l: "loadRejectedFixes wards Map.empty k \<noteq> None"
    by (simp add: loadRejectedFixes_def)
  from processFile_keeps [of "loadRejectedFixes wards Map.empty" k strictMode env filePath parse d evs, OF l]
  show "Prompted k \<notin> set (trace (fst (snd (run strictMode env filePath parse wards d evs))))"
    and "wards_has k (snd (snd (run strictMode env filePath parse wards d evs)))"
    using m by (simp_all add: run_def Let_def saveRejectedFixes_def wards_has_def)
qed

text \<open>
  Claim C8. Let a key be in the rejection map at the end of a run (put there by a decline,
  \<open>decline_records\<close>, by an auto-skip, \<open>autoskip_records\<close>, or loaded at its start: the map
  never loses a key during a run) and let that run save its memory. Then the next run, in
  whatever mode, on whatever the file then holds and whatever the user types, issues no prompt
  for that key, and the key is still in the saved memory afterwards, so the same holds for
  every later run.
\<close>
theorem rejected_key_never_reoffered:
  assumes "rejectedFixes (fst (snd (run strict1 env1 path1 parse1 wards0 d1 evs1))) k \<noteq> None"
    and "write_ok env1"
  shows "Prompted k \<notin> set (trace (fst (snd
           (run strict2 env2 path2 parse2
              (snd (snd (run strict1 env1 path1 parse1 wards0 d1 evs1))) d2 evs2)))) \<and>
         wards_has k (snd (snd
           (run strict2 env2 path2 parse2
              (snd (snd (run strict1 env1 path1 parse1 wards0 d1 evs1))) d2 evs2)))"
proof -
  have "wards_has k (snd (snd (run strict1 env1 path1 parse1 wards0 d1 evs1)))"
    using assms by (simp add: run_def Let_def saveRejectedFixes_def wards_has_def)
  from wards_kept_by_run [OF this] show ?thesis by blast
qed

lemma processFile_small:
  assumes "length (content f) \<le> MAX_FILE_SIZE"
  shows "processFile strictMode env filePath parse rejected (Some f) evs =
     (case parse (content f) of
        None \<Rightarrow> (ParseFailed, add_note LogError
                   \<lparr>fileLines = [], changed = False, rejectedFixes = rejected,
                    modTime = Some (mtimeMs f), disk = Some f, trace = []\<rparr>)
      | Some nodes \<Rightarrow>
          (Reviewed (fst (review_and_save env filePath
              (stringFixes (traverse strictMode env filePath (content f) (Some (content f)) nodes rejected))
              \<lparr>fileLines = split_lines (content f), changed = False,
               rejectedFixes = scan_rejected
                 (traverse strictMode env filePath (content f) (Some (content f)) nodes rejected),
               modTime = Some (mtimeMs f), disk = Some f, trace = []\<rparr> evs)),
           snd (review_and_save env filePath
              (stringFixes (traverse strictMode env filePath (content f) (Some (content f)) nodes rejected))
              \<lparr>fileLines = split_lines (content f), changed = False,
               rejectedFixes = scan_rejected
                 (traverse strictMode env filePath (content f) (Some (content f)) nodes rejected),
               modTime = Some (mtimeMs f), disk = Some f, trace = []\<rparr> evs)))"
  using assms by (simp add: processFile_def Let_def statSync_def split: option.splits)

lemma one_literal_small: "length (content one_literal_file) \<le> MAX_FILE_SIZE"
  by (simp add: one_literal_file_def MAX_FILE_SIZE_def)

lemmas run_small = run_def Let_def processFile_small [OF one_literal_small]

text \<open>Claim C8, witness: the user declines the only candidate of a file; the second run, in
  strict mode, skips it without a prompt.\<close>
theorem rejected_key_never_reoffered_witness:
  \<open>rejectedFixes (fst (snd first_run)) ''a.js:1:10:It's'' \<noteq> None \<and> write_ok quiet_env \<and>
   trace (fst (snd first_run)) = [Prompted ''a.js:1:10:It's''] \<and>
   trace (fst (snd second_run)) = [SkippedRejected ''a.js:1:10:It's''] \<and>
   Prompted ''a.js:1:10:It's'' \<notin> set (trace (fst (snd second_run)))\<close>
proof -
  have h1: \<open>rejectedFixes (fst (snd first_run)) ''a.js:1:10:It's'' \<noteq> None\<close>
    unfolding first_run_def run_small by code_simp
  have h2: "write_ok quiet_env" by code_simp
  have t1: \<open>trace (fst (snd first_run)) = [Prompted ''a.js:1:10:It's'']\<close>
    unfolding first_run_def run_small by code_simp
  have t2: \<open>trace (fst (snd second_run)) = [SkippedRejected ''a.js:1:10:It's'']\<close>
    unfolding second_run_def first_run_def run_small by code_simp
  from rejected_key_never_reoffered [OF h1 [unfolded first_run_def] h2,
      of True quiet_env "''a.js''" one_literal_parse "Some one_literal_file" "[approve]"]
  have \<open>Prompted ''a.js:1:10:It's'' \<notin> set (trace (fst (snd second_run)))\<close>
    unfolding second_run_def first_run_def by blast
  with h1 h2 t1 t2 show ?thesis by blast
qed

lemma filter_scan:
  \<open>stringFixes (traverse False quiet_env ''App.jsx'' filter_file (Some filter_file) [filter_node] Map.empty) = [] \<and>
   map_option rj_reason
     (scan_rejected (traverse False quiet_env ''App.jsx'' filter_file (Some filter_file) [filter_node] Map.empty)
        ''App.jsx:1:10:& filter=active'') = Some (Some ''CSS selector pattern'') \<and>
   map (\<lambda>fx. (original fx, escaped fx))
     (stringFixes (traverse True quiet_env ''App.jsx'' filter_file (Some filter_file) [filter_node] Map.empty)) =
     [(''& filter=active'', ''&amp; filter=active'')]\<close>
  by code_simp

section \<open>Scenario B\<close>

text \<open>
  Claim C7 as stated fails: for \<^verbatim>\<open>& filter=active\<close> the engine's own exclusion test is
  negative and \<^verbatim>\<open>escapeString\<close> returns an outcome, and the auto-skip rule that fires is
  not the query-parameter rule.
\<close>
theorem autoskip_filter_active_counterexample:
  \<open>escapeString False ''& filter=active'' \<noteq> Unchanged ''& filter=active'' \<and>
   \<not> shouldExcludeFromEscaping False ''& filter=active'' \<and>
   isAutoSkipPattern False ''& filter=active'' ''src/App.jsx'' 1 0 \<noteq> Some ''Query parameter pattern''\<close>
  by (simp add: policy_defs isAutoSkipPattern_def)

text \<open>
  Claim C7, as amended. In normal mode \<^verbatim>\<open>escapeString\<close> maps \<^verbatim>\<open>& filter=active\<close> to the
  outcome \<^verbatim>\<open>&amp; filter=active\<close>; the candidate is then excluded by the auto-skip patterns,
  whose first rule (the text starts with \<^verbatim>\<open>&\<close> and holds a space) answers before the
  query-parameter rule is reached, whatever the file and position. In strict mode no
  auto-skip rule applies. On a file that holds the literal, the traversal in normal mode
  yields no fix for it and records its key in the rejection memory with that reason.
\<close>
theorem autoskip_filter_active:
  \<open>escapeString False ''& filter=active'' = Escaped ''&amp; filter=active'' ''&'' \<and>
   isAutoSkipPattern False ''& filter=active'' filePath line column = Some ''CSS selector pattern'' \<and>
   isAutoSkipPattern True ''& filter=active'' filePath line column = None \<and>
   stringFixes (traverse False quiet_env ''App.jsx'' filter_file (Some filter_file) [filter_node]
                  Map.empty) = [] \<and>
   map_option rj_reason
     (scan_rejected (traverse False quiet_env ''App.jsx'' filter_file (Some filter_file)
                       [filter_node] Map.empty)
        ''App.jsx:1:10:& filter=active'') = Some (Some ''CSS selector pattern'')\<close>
  using filter_scan by (simp add: policy_defs isAutoSkipPattern_def)

end
